theory Spec2Isabelle
  imports Main "HOL-Library.Word"
begin

unbundle bit_operations_syntax

section \<open>Status codes and machine integers\<close>

text \<open>
  The library reports the outcome of an operation as a signed status \<open>herr_t\<close>:
  \<open>SUCCEED\<close> (non-negative) or \<open>FAIL\<close> (negative). A third value, \<open>NORETURN\<close>, stands
  for a call that never comes back in a sequential run (a blocking lock on a mutex
  that another thread owns, or the relock of a plain mutex by its owner); it is passed
  through unchanged by every caller, as a call that hangs hangs its callers.
  \<open>unsigned\<close> is a 32-bit word, \<open>size_t\<close> and \<open>uint64_t\<close> are 64-bit words; their
  arithmetic wraps as in C.
\<close>

datatype herr_t = SUCCEED | FAIL | NORETURN

type_synonym unsigned = "32 word"
type_synonym c_int = "32 word"
type_synonym size_t = "64 word"
type_synonym thread_id = nat

definition UINT_MAX :: "32 word" where
  "UINT_MAX = 4294967295"

section \<open>Plain and recursive mutexes (H5TSmutex.c over pthreads)\<close>

text \<open>
  The operating-system mutex is outside the repository. Its state is the owning thread
  and the recursion depth; \<open>mtx_calls\<close> counts every pthread call made on the object,
  so that two equal mutex values mean that no call was made in between. \<open>mtx_valid\<close>
  is false for an object that was never initialised or was destroyed (the calls then
  return EINVAL).
\<close>

datatype H5TS_mutex_type_t = H5TS_MUTEX_TYPE_PLAIN | H5TS_MUTEX_TYPE_RECURSIVE

record H5TS_mutex_t =
  mtx_valid :: bool
  mtx_type :: H5TS_mutex_type_t
  mtx_owner :: "thread_id option"
  mtx_depth :: nat
  mtx_calls :: nat

datatype pthread_rc = RC_OK | RC_EINVAL | RC_EBUSY | RC_EPERM | RC_BLOCKS

definition pthread_mutex_lock :: "thread_id \<Rightarrow> H5TS_mutex_t \<Rightarrow> pthread_rc \<times> H5TS_mutex_t" where
  "pthread_mutex_lock t m =
     (let m1 = m\<lparr>mtx_calls := mtx_calls m + 1\<rparr> in
      if \<not> mtx_valid m then (RC_EINVAL, m1)
      else (case mtx_owner m of
              None \<Rightarrow> (RC_OK, m1\<lparr>mtx_owner := Some t, mtx_depth := 1\<rparr>)
            | Some ow \<Rightarrow>
                if ow = t \<and> mtx_type m = H5TS_MUTEX_TYPE_RECURSIVE
                then (RC_OK, m1\<lparr>mtx_depth := mtx_depth m + 1\<rparr>)
                else (RC_BLOCKS, m1)))"

definition pthread_mutex_trylock :: "thread_id \<Rightarrow> H5TS_mutex_t \<Rightarrow> pthread_rc \<times> H5TS_mutex_t" where
  "pthread_mutex_trylock t m =
     (let m1 = m\<lparr>mtx_calls := mtx_calls m + 1\<rparr> in
      if \<not> mtx_valid m then (RC_EINVAL, m1)
      else (case mtx_owner m of
              None \<Rightarrow> (RC_OK, m1\<lparr>mtx_owner := Some t, mtx_depth := 1\<rparr>)
            | Some ow \<Rightarrow>
                if ow = t \<and> mtx_type m = H5TS_MUTEX_TYPE_RECURSIVE
                then (RC_OK, m1\<lparr>mtx_depth := mtx_depth m + 1\<rparr>)
                else (RC_EBUSY, m1)))"

definition pthread_mutex_unlock :: "thread_id \<Rightarrow> H5TS_mutex_t \<Rightarrow> pthread_rc \<times> H5TS_mutex_t" where
  "pthread_mutex_unlock t m =
     (let m1 = m\<lparr>mtx_calls := mtx_calls m + 1\<rparr> in
      if \<not> mtx_valid m then (RC_EINVAL, m1)
      else if mtx_owner m = Some t \<and> 0 < mtx_depth m
      then (if mtx_depth m = 1 then (RC_OK, m1\<lparr>mtx_owner := None, mtx_depth := 0\<rparr>)
            else (RC_OK, m1\<lparr>mtx_depth := mtx_depth m - 1\<rparr>))
      else (RC_EPERM, m1))"

text \<open>H5TS_mutex_lock: any non-zero return of pthread_mutex_lock is a failure.\<close>

definition H5TS_mutex_lock :: "thread_id \<Rightarrow> H5TS_mutex_t \<Rightarrow> herr_t \<times> H5TS_mutex_t" where
  "H5TS_mutex_lock t m =
     (case pthread_mutex_lock t m of
        (RC_OK, m') \<Rightarrow> (SUCCEED, m')
      | (RC_BLOCKS, m') \<Rightarrow> (NORETURN, m')
      | (_, m') \<Rightarrow> (FAIL, m'))"

text \<open>H5TS_mutex_try_lock: 0 sets acquired, EBUSY clears it, anything else fails.\<close>

definition H5TS_mutex_trylock ::
  "thread_id \<Rightarrow> H5TS_mutex_t \<Rightarrow> herr_t \<times> bool \<times> H5TS_mutex_t" where
  "H5TS_mutex_trylock t m =
     (case pthread_mutex_trylock t m of
        (RC_OK, m') \<Rightarrow> (SUCCEED, True, m')
      | (RC_EBUSY, m') \<Rightarrow> (SUCCEED, False, m')
      | (_, m') \<Rightarrow> (FAIL, False, m'))"

definition H5TS_mutex_unlock :: "thread_id \<Rightarrow> H5TS_mutex_t \<Rightarrow> herr_t \<times> H5TS_mutex_t" where
  "H5TS_mutex_unlock t m =
     (case pthread_mutex_unlock t m of
        (RC_OK, m') \<Rightarrow> (SUCCEED, m')
      | (_, m') \<Rightarrow> (FAIL, m'))"

section \<open>Per-thread info and the DLFTT counter (H5TSint.c)\<close>

record H5TS_thread_info_t =
  ti_id :: "64 word"
  ti_dlftt :: unsigned

text \<open>
  The calling thread as the threadsafety code sees it: its identity, the value of its
  slot under \<open>H5TS_thrd_info_key_g\<close> (None is the NULL pointer), the registry globals,
  and whether the primitives used on the way succeed: \<open>H5TS_key_get_value\<close>,
  \<open>H5TS_key_set_value\<close>, \<open>H5MM_malloc\<close>, and locking and unlocking the registry mutex
  \<open>H5TS_tinfo_mtx_s\<close> (which other threads hold only for a few instructions, so that a
  lock attempt waits and then returns). The free list of recycled records is kept by
  its length: a record taken from it is cleared by memset before use.
\<close>

record H5TS_thread_t =
  thr_self :: thread_id
  thr_tls :: "H5TS_thread_info_t option"
  H5TS_next_thrd_id_s :: "64 word"
  H5TS_tinfo_next_free_s :: nat
  key_get_ok :: bool
  key_set_ok :: bool
  tinfo_lock_ok :: bool
  tinfo_unlock_ok :: bool
  tinfo_malloc_ok :: bool

text \<open>
  H5TS__tinfo_create. The result is the new record (None for NULL) and the thread
  state. When setting the key fails the record goes to the free list
  (H5TS__tinfo_destroy).
\<close>

definition H5TS__tinfo_create :: "H5TS_thread_t \<Rightarrow> H5TS_thread_info_t option \<times> H5TS_thread_t" where
  "H5TS__tinfo_create e =
     (if \<not> tinfo_lock_ok e then (None, e)
      else (let reuse = (0 < H5TS_tinfo_next_free_s e);
                nfree = (if reuse then H5TS_tinfo_next_free_s e - 1 else 0);
                new_id = H5TS_next_thrd_id_s e + 1;
                e2 = e\<lparr>H5TS_tinfo_next_free_s := nfree, H5TS_next_thrd_id_s := new_id\<rparr>
            in if \<not> tinfo_unlock_ok e then (None, e2)
               else if \<not> reuse \<and> \<not> tinfo_malloc_ok e then (None, e2)
               else (let node = \<lparr>ti_id = new_id, ti_dlftt = 0\<rparr>
                     in if \<not> key_set_ok e
                        then (None, e2\<lparr>H5TS_tinfo_next_free_s := nfree + 1\<rparr>)
                        else (Some node, e2\<lparr>thr_tls := Some node\<rparr>))))"

text \<open>
  The common prologue of the DLFTT accessors: read the thread's slot, creating the
  record on first use.
\<close>

definition H5TS__tinfo_get :: "H5TS_thread_t \<Rightarrow> H5TS_thread_info_t option \<times> H5TS_thread_t" where
  "H5TS__tinfo_get e =
     (if \<not> key_get_ok e then (None, e)
      else (case thr_tls e of
              Some node \<Rightarrow> (Some node, e)
            | None \<Rightarrow> H5TS__tinfo_create e))"

definition H5TS__get_dlftt :: "H5TS_thread_t \<Rightarrow> herr_t \<times> unsigned \<times> H5TS_thread_t" where
  "H5TS__get_dlftt e =
     (case H5TS__tinfo_get e of
        (None, e') \<Rightarrow> (FAIL, 0, e')
      | (Some node, e') \<Rightarrow> (SUCCEED, ti_dlftt node, e'))"

definition H5TS__set_dlftt :: "unsigned \<Rightarrow> H5TS_thread_t \<Rightarrow> herr_t \<times> H5TS_thread_t" where
  "H5TS__set_dlftt d e =
     (case H5TS__tinfo_get e of
        (None, e') \<Rightarrow> (FAIL, e')
      | (Some node, e') \<Rightarrow> (SUCCEED, e'\<lparr>thr_tls := Some (node\<lparr>ti_dlftt := d\<rparr>)\<rparr>))"

definition H5TS__inc_dlftt :: "H5TS_thread_t \<Rightarrow> herr_t \<times> H5TS_thread_t" where
  "H5TS__inc_dlftt e =
     (case H5TS__tinfo_get e of
        (None, e') \<Rightarrow> (FAIL, e')
      | (Some node, e') \<Rightarrow>
          (SUCCEED, e'\<lparr>thr_tls := Some (node\<lparr>ti_dlftt := ti_dlftt node + 1\<rparr>)\<rparr>))"

definition H5TS__dec_dlftt :: "H5TS_thread_t \<Rightarrow> herr_t \<times> H5TS_thread_t" where
  "H5TS__dec_dlftt e =
     (case H5TS__tinfo_get e of
        (None, e') \<Rightarrow> (FAIL, e')
      | (Some node, e') \<Rightarrow>
          (SUCCEED, e'\<lparr>thr_tls := Some (node\<lparr>ti_dlftt := ti_dlftt node - 1\<rparr>)\<rparr>))"

definition H5TS_user_cb_prepare :: "H5TS_thread_t \<Rightarrow> herr_t \<times> H5TS_thread_t" where
  "H5TS_user_cb_prepare e = H5TS__inc_dlftt e"

definition H5TS_user_cb_restore :: "H5TS_thread_t \<Rightarrow> herr_t \<times> H5TS_thread_t" where
  "H5TS_user_cb_restore e = H5TS__dec_dlftt e"

section \<open>The DLFTT-aware mutex (H5TSdlftt_mutex.h)\<close>

record H5TS_dlftt_mutex_t =
  dm_mtx :: H5TS_mutex_t
  dm_dlftt :: unsigned

text \<open>
  H5TS_dlftt_mutex_acquire stores the thread's DLFTT value in the mutex object before
  it decides; a failure of the query leaves the object as it was, since the query
  writes through the pointer only on success.
\<close>

definition H5TS_dlftt_mutex_acquire ::
  "H5TS_thread_t \<Rightarrow> H5TS_dlftt_mutex_t \<Rightarrow> herr_t \<times> H5TS_thread_t \<times> H5TS_dlftt_mutex_t" where
  "H5TS_dlftt_mutex_acquire e mtx =
     (case H5TS__get_dlftt e of
        (SUCCEED, d, e') \<Rightarrow>
          (let mtx1 = mtx\<lparr>dm_dlftt := d\<rparr> in
           if 0 = dm_dlftt mtx1
           then (case H5TS_mutex_lock (thr_self e') (dm_mtx mtx1) of
                   (SUCCEED, m') \<Rightarrow> (SUCCEED, e', mtx1\<lparr>dm_mtx := m'\<rparr>)
                 | (NORETURN, m') \<Rightarrow> (NORETURN, e', mtx1\<lparr>dm_mtx := m'\<rparr>)
                 | (FAIL, m') \<Rightarrow> (FAIL, e', mtx1\<lparr>dm_mtx := m'\<rparr>))
           else (SUCCEED, e', mtx1))
      | (r, d, e') \<Rightarrow> (r, e', mtx))"

definition H5TS_dlftt_mutex_release ::
  "H5TS_thread_t \<Rightarrow> H5TS_dlftt_mutex_t \<Rightarrow> herr_t \<times> H5TS_dlftt_mutex_t" where
  "H5TS_dlftt_mutex_release e mtx =
     (if 0 = dm_dlftt mtx
      then (case H5TS_mutex_unlock (thr_self e) (dm_mtx mtx) of
              (SUCCEED, m') \<Rightarrow> (SUCCEED, mtx\<lparr>dm_mtx := m'\<rparr>)
            | (r, m') \<Rightarrow> (FAIL, mtx\<lparr>dm_mtx := m'\<rparr>))
      else (SUCCEED, mtx))"

text \<open>H5TS_dlftt_mutex_init (H5TSdlftt_mutex.c): a plain mutex and a zero snapshot.\<close>

definition H5TS_dlftt_mutex_init :: "H5TS_dlftt_mutex_t" where
  "H5TS_dlftt_mutex_init =
     \<lparr>dm_mtx = \<lparr>mtx_valid = True, mtx_type = H5TS_MUTEX_TYPE_PLAIN, mtx_owner = None,
                mtx_depth = 0, mtx_calls = 0\<rparr>,
      dm_dlftt = 0\<rparr>"

section \<open>The global API lock (H5TSint.c)\<close>

text \<open>
  Modelled from the spec: the recursive reader/writer lock, whose implementation
  (H5TSrwlock.c) is not among the sources. Section 4.2: a write lock taken from the
  idle state makes the caller the writer with depth 1; the writer may take it again,
  which adds one to the depth; a non-blocking attempt reports \<open>acquired = false\<close> when
  the lock is contended; unlocking takes one from the depth and the lock is idle again
  when the depth reaches zero. Unlocking a lock that the caller does not hold for
  writing is an error.
\<close>

datatype H5TS_rw_lock_type_t = UNUSED | WRITE | READ

record H5TS_rw_lock_t =
  rw_lock_type :: H5TS_rw_lock_type_t
  rw_write_thread :: "thread_id option"
  rw_rec_write_lock_count :: nat
  rw_active_reader_threads :: nat

definition H5TS_rwlock_trywrlock ::
  "thread_id \<Rightarrow> H5TS_rw_lock_t \<Rightarrow> herr_t \<times> bool \<times> H5TS_rw_lock_t" where
  "H5TS_rwlock_trywrlock t l =
     (case rw_lock_type l of
        UNUSED \<Rightarrow> (SUCCEED, True, l\<lparr>rw_lock_type := WRITE, rw_write_thread := Some t,
                                    rw_rec_write_lock_count := 1\<rparr>)
      | WRITE \<Rightarrow>
          if rw_write_thread l = Some t
          then (SUCCEED, True, l\<lparr>rw_rec_write_lock_count := rw_rec_write_lock_count l + 1\<rparr>)
          else (SUCCEED, False, l)
      | READ \<Rightarrow> (SUCCEED, False, l))"

definition H5TS_rwlock_wrunlock :: "thread_id \<Rightarrow> H5TS_rw_lock_t \<Rightarrow> herr_t \<times> H5TS_rw_lock_t" where
  "H5TS_rwlock_wrunlock t l =
     (if rw_lock_type l = WRITE \<and> rw_write_thread l = Some t \<and> 0 < rw_rec_write_lock_count l
      then (if rw_rec_write_lock_count l = 1
            then (SUCCEED, l\<lparr>rw_lock_type := UNUSED, rw_write_thread := None,
                              rw_rec_write_lock_count := 0\<rparr>)
            else (SUCCEED, l\<lparr>rw_rec_write_lock_count := rw_rec_write_lock_count l - 1\<rparr>))
      else (FAIL, l))"

text \<open>
  \<open>H5TS_api_info_p\<close>. The H5_HAVE_THREADSAFE build uses \<open>api_mutex\<close> (a recursive
  mutex) with \<open>lock_count\<close>; the H5_HAVE_CONCURRENCY build uses \<open>api_lock\<close> and keeps the
  count in the calling thread's DLFTT value.
\<close>

record H5TS_api_info_t =
  api_mutex :: H5TS_mutex_t
  lock_count :: unsigned
  api_lock :: H5TS_rw_lock_t
  attempt_lock_count :: unsigned

text \<open>
  The loops \<open>for (u = 0; u < bound; u++)\<close> of acquire and release lock or unlock the
  mutex \<open>bound\<close> times and leave at the first failure; the models recurse on the number
  of iterations left.
\<close>

fun H5TS_mutex_lock_times :: "nat \<Rightarrow> thread_id \<Rightarrow> H5TS_mutex_t \<Rightarrow> herr_t \<times> H5TS_mutex_t" where
  "H5TS_mutex_lock_times 0 t m = (SUCCEED, m)"
| "H5TS_mutex_lock_times (Suc k) t m =
     (case H5TS_mutex_lock t m of
        (SUCCEED, m') \<Rightarrow> H5TS_mutex_lock_times k t m'
      | (r, m') \<Rightarrow> (r, m'))"

fun H5TS_mutex_unlock_times :: "nat \<Rightarrow> thread_id \<Rightarrow> H5TS_mutex_t \<Rightarrow> herr_t \<times> H5TS_mutex_t" where
  "H5TS_mutex_unlock_times 0 t m = (SUCCEED, m)"
| "H5TS_mutex_unlock_times (Suc k) t m =
     (case H5TS_mutex_unlock t m of
        (SUCCEED, m') \<Rightarrow> H5TS_mutex_unlock_times k t m'
      | (r, m') \<Rightarrow> (r, m'))"

text \<open>
  H5TS__api_mutex_acquire, H5_HAVE_THREADSAFE branch. The bound of the loop is
  \<open>lock_count - 1\<close> in unsigned arithmetic.
\<close>

definition H5TS__api_mutex_acquire_threadsafe ::
  "unsigned \<Rightarrow> thread_id \<Rightarrow> H5TS_api_info_t \<Rightarrow> herr_t \<times> bool \<times> H5TS_api_info_t" where
  "H5TS__api_mutex_acquire_threadsafe n t a =
     (case H5TS_mutex_trylock t (api_mutex a) of
        (SUCCEED, acquired, m1) \<Rightarrow>
          if acquired
          then (case H5TS_mutex_lock_times (unat (n - 1)) t m1 of
                  (SUCCEED, m2) \<Rightarrow>
                    (SUCCEED, True, a\<lparr>api_mutex := m2, lock_count := lock_count a + n\<rparr>)
                | (r, m2) \<Rightarrow> (r, True, a\<lparr>api_mutex := m2\<rparr>))
          else (SUCCEED, False, a\<lparr>api_mutex := m1\<rparr>)
      | (r, acquired, m1) \<Rightarrow> (r, acquired, a\<lparr>api_mutex := m1\<rparr>))"

definition H5TS__api_mutex_release_threadsafe ::
  "thread_id \<Rightarrow> H5TS_api_info_t \<Rightarrow> herr_t \<times> unsigned \<times> H5TS_api_info_t" where
  "H5TS__api_mutex_release_threadsafe t a =
     (let c = lock_count a; a1 = a\<lparr>lock_count := 0\<rparr> in
      case H5TS_mutex_unlock_times (unat c) t (api_mutex a1) of
        (r, m) \<Rightarrow> (r, c, a1\<lparr>api_mutex := m\<rparr>))"

text \<open>H5TS__api_mutex_acquire and H5TS__api_mutex_release, H5_HAVE_CONCURRENCY branch.\<close>

definition H5TS__api_mutex_acquire_concurrency ::
  "unsigned \<Rightarrow> H5TS_thread_t \<Rightarrow> H5TS_api_info_t
     \<Rightarrow> herr_t \<times> bool \<times> H5TS_thread_t \<times> H5TS_api_info_t" where
  "H5TS__api_mutex_acquire_concurrency n e a =
     (case H5TS__get_dlftt e of
        (SUCCEED, dlftt, e1) \<Rightarrow>
          (case (if 0 = dlftt
                 then H5TS_rwlock_trywrlock (thr_self e1) (api_lock a)
                 else (SUCCEED, True, api_lock a)) of
             (SUCCEED, acquired, l1) \<Rightarrow>
               if acquired
               then (case H5TS__set_dlftt (dlftt + n) e1 of
                       (r, e2) \<Rightarrow> (r, True, e2, a\<lparr>api_lock := l1\<rparr>))
               else (SUCCEED, False, e1, a\<lparr>api_lock := l1\<rparr>)
           | (r, acquired, l1) \<Rightarrow> (r, acquired, e1, a\<lparr>api_lock := l1\<rparr>))
      | (r, dlftt, e1) \<Rightarrow> (r, False, e1, a))"

definition H5TS__api_mutex_release_concurrency ::
  "H5TS_thread_t \<Rightarrow> H5TS_api_info_t \<Rightarrow> herr_t \<times> unsigned \<times> H5TS_thread_t \<times> H5TS_api_info_t" where
  "H5TS__api_mutex_release_concurrency e a =
     (case H5TS__get_dlftt e of
        (SUCCEED, c, e1) \<Rightarrow>
          (case H5TS__set_dlftt 0 e1 of
             (SUCCEED, e2) \<Rightarrow>
               (case H5TS_rwlock_wrunlock (thr_self e2) (api_lock a) of
                  (r, l1) \<Rightarrow> (r, c, e2, a\<lparr>api_lock := l1\<rparr>))
           | (r, e2) \<Rightarrow> (r, c, e2, a))
      | (r, c, e1) \<Rightarrow> (r, 0, e1, a))"

text \<open>
  A run of acquisitions on one thread with no release in between: each call must
  return success with \<open>acquired = true\<close>, otherwise there is no such run (None).
\<close>

fun acquire_all_threadsafe ::
  "unsigned list \<Rightarrow> thread_id \<Rightarrow> H5TS_api_info_t \<Rightarrow> H5TS_api_info_t option" where
  "acquire_all_threadsafe [] t a = Some a"
| "acquire_all_threadsafe (n # ns) t a =
     (case H5TS__api_mutex_acquire_threadsafe n t a of
        (SUCCEED, True, a') \<Rightarrow> acquire_all_threadsafe ns t a'
      | _ \<Rightarrow> None)"

fun acquire_all_concurrency ::
  "unsigned list \<Rightarrow> H5TS_thread_t \<Rightarrow> H5TS_api_info_t
     \<Rightarrow> (H5TS_thread_t \<times> H5TS_api_info_t) option" where
  "acquire_all_concurrency [] e a = Some (e, a)"
| "acquire_all_concurrency (n # ns) e a =
     (case H5TS__api_mutex_acquire_concurrency n e a of
        (SUCCEED, True, e', a') \<Rightarrow> acquire_all_concurrency ns e' a'
      | _ \<Rightarrow> None)"

text \<open>The number of recursive holds of the API lock that thread \<open>t\<close> has.\<close>

definition holds_threadsafe :: "thread_id \<Rightarrow> H5TS_api_info_t \<Rightarrow> nat" where
  "holds_threadsafe t a =
     (if mtx_owner (api_mutex a) = Some t then mtx_depth (api_mutex a) else 0)"

definition holds_concurrency :: "thread_id \<Rightarrow> H5TS_api_info_t \<Rightarrow> nat" where
  "holds_concurrency t a =
     (if rw_lock_type (api_lock a) = WRITE \<and> rw_write_thread (api_lock a) = Some t
      then rw_rec_write_lock_count (api_lock a) else 0)"

text \<open>The DLFTT value of the calling thread, zero for a thread with no record yet.\<close>

definition thr_dlftt :: "H5TS_thread_t \<Rightarrow> unsigned" where
  "thr_dlftt e = (case thr_tls e of None \<Rightarrow> 0 | Some node \<Rightarrow> ti_dlftt node)"

text \<open>
  A run of acquisitions followed by one release; the result is what the release
  returns: the status, the count passed back through \<open>lock_count\<close>, and the state.
\<close>

definition acquire_release_threadsafe ::
  "unsigned list \<Rightarrow> thread_id \<Rightarrow> H5TS_api_info_t
     \<Rightarrow> (herr_t \<times> unsigned \<times> H5TS_api_info_t) option" where
  "acquire_release_threadsafe ns t a =
     (case acquire_all_threadsafe ns t a of
        None \<Rightarrow> None
      | Some a' \<Rightarrow> Some (H5TS__api_mutex_release_threadsafe t a'))"

definition acquire_release_concurrency ::
  "unsigned list \<Rightarrow> H5TS_thread_t \<Rightarrow> H5TS_api_info_t
     \<Rightarrow> (herr_t \<times> unsigned \<times> H5TS_thread_t \<times> H5TS_api_info_t) option" where
  "acquire_release_concurrency ns e a =
     (case acquire_all_concurrency ns e a of
        None \<Rightarrow> None
      | Some (e', a') \<Rightarrow> Some (H5TS__api_mutex_release_concurrency e' a'))"

text \<open>
  Modelled from the spec: the blocking write lock of the reader/writer lock (section
  4.2), which waits while another thread holds the lock.
\<close>

definition H5TS_rwlock_wrlock :: "thread_id \<Rightarrow> H5TS_rw_lock_t \<Rightarrow> herr_t \<times> H5TS_rw_lock_t" where
  "H5TS_rwlock_wrlock t l =
     (case H5TS_rwlock_trywrlock t l of
        (SUCCEED, True, l') \<Rightarrow> (SUCCEED, l')
      | (SUCCEED, False, l') \<Rightarrow> (NORETURN, l')
      | (r, b, l') \<Rightarrow> (r, l'))"

text \<open>
  H5TS_api_lock, H5_HAVE_CONCURRENCY branch, for a library that is already
  initialised: the entry of an API routine.
\<close>

definition H5TS_api_lock_concurrency ::
  "H5TS_thread_t \<Rightarrow> H5TS_api_info_t \<Rightarrow> herr_t \<times> unsigned \<times> H5TS_thread_t \<times> H5TS_api_info_t" where
  "H5TS_api_lock_concurrency e a =
     (let a1 = a\<lparr>attempt_lock_count := attempt_lock_count a + 1\<rparr> in
      case H5TS__get_dlftt e of
        (SUCCEED, dlftt, e1) \<Rightarrow>
          if 0 = dlftt
          then (case H5TS_rwlock_wrlock (thr_self e1) (api_lock a1) of
                  (r, l1) \<Rightarrow> (r, dlftt, e1, a1\<lparr>api_lock := l1\<rparr>))
          else (SUCCEED, dlftt, e1, a1)
      | (r, dlftt, e1) \<Rightarrow> (r, dlftt, e1, a1))"

text \<open>
  A thread inside a user callback: it entered an API routine (H5TS_api_lock), the
  library prepared the callback (H5TS_user_cb_prepare), and the callback now acquires
  the API lock \<open>n\<close> times and releases it. The result is the count that the release
  passes back.
\<close>

definition callback_acquire_release ::
  "unsigned \<Rightarrow> H5TS_thread_t \<Rightarrow> H5TS_api_info_t \<Rightarrow> unsigned option" where
  "callback_acquire_release n e a =
     (case H5TS_api_lock_concurrency e a of
        (SUCCEED, d, e1, a1) \<Rightarrow>
          (case H5TS_user_cb_prepare e1 of
             (SUCCEED, e2) \<Rightarrow>
               (case acquire_release_concurrency [n] e2 a1 of
                  Some (SUCCEED, c, e3, a3) \<Rightarrow> Some c
                | _ \<Rightarrow> None)
           | _ \<Rightarrow> None)
      | _ \<Rightarrow> None)"

text \<open>A thread that has not entered the library yet, and the API lock at rest.\<close>

definition new_thread :: "thread_id \<Rightarrow> H5TS_thread_t" where
  "new_thread t =
     \<lparr>thr_self = t, thr_tls = None, H5TS_next_thrd_id_s = 0, H5TS_tinfo_next_free_s = 0,
      key_get_ok = True, key_set_ok = True, tinfo_lock_ok = True, tinfo_unlock_ok = True,
      tinfo_malloc_ok = True\<rparr>"

definition api_info_init :: H5TS_api_info_t where
  "api_info_init =
     \<lparr>api_mutex = \<lparr>mtx_valid = True, mtx_type = H5TS_MUTEX_TYPE_RECURSIVE, mtx_owner = None,
                   mtx_depth = 0, mtx_calls = 0\<rparr>,
      lock_count = 0,
      api_lock = \<lparr>rw_lock_type = UNUSED, rw_write_thread = None, rw_rec_write_lock_count = 0,
                  rw_active_reader_threads = 0\<rparr>,
      attempt_lock_count = 0\<rparr>"


section \<open>Properties of the DLFTT-aware mutex\<close>






section \<open>Properties of the API lock\<close>




















lemmas api_eval_defs =
  acquire_release_threadsafe_def acquire_release_concurrency_def
  H5TS__api_mutex_acquire_threadsafe_def H5TS__api_mutex_release_threadsafe_def
  H5TS__api_mutex_acquire_concurrency_def H5TS__api_mutex_release_concurrency_def
  H5TS_mutex_trylock_def pthread_mutex_trylock_def H5TS_mutex_lock_def pthread_mutex_lock_def
  H5TS_mutex_unlock_def pthread_mutex_unlock_def
  H5TS_rwlock_trywrlock_def H5TS_rwlock_wrunlock_def H5TS_rwlock_wrlock_def
  H5TS__get_dlftt_def H5TS__set_dlftt_def H5TS__inc_dlftt_def H5TS__tinfo_get_def
  H5TS__tinfo_create_def H5TS_user_cb_prepare_def H5TS_api_lock_concurrency_def
  new_thread_def api_info_init_def holds_threadsafe_def holds_concurrency_def thr_dlftt_def
  callback_acquire_release_def Let_def



text \<open>
  An acquisition of zero holds takes the write lock without recording it: after two
  of them the release passes back 0 and the thread still holds the lock once.
\<close>

lemma api_mutex_acquire_zero_keeps_hold:
  "\<exists>e' b'. acquire_release_concurrency [0, 0] (new_thread 1) api_info_init
              = Some (SUCCEED, 0, e', b') \<and> holds_concurrency 1 b' = 1"
  by (simp add: api_eval_defs)


section \<open>Free lists (H5FL.c, H5_HAVE_CONCURRENCY build)\<close>

text \<open>
  Errors are pushed on the error stack by HGOTO_ERROR; the minor codes used by the
  free-list code are enough here. The trace records the calls whose number and order
  the properties below speak about.
\<close>

datatype H5E_minor_t = H5E_CANTLOCK | H5E_CANTUNLOCK | H5E_CANTGC | H5E_CANTALLOC

datatype fl_event =
    EV_MALLOC size_t bool
  | EV_MM_FREE nat
  | EV_GARBAGE_COLL
  | EV_ARR_GC
  | EV_BLK_GC
  | EV_REG_GC
  | EV_FAC_GC
  | EV_REG_GC_LIST nat

record H5FL_reg_head_t =
  rh_mutex :: H5TS_dlftt_mutex_t
  rh_allocated :: unsigned
  rh_onlist :: unsigned
  rh_size :: size_t
  rh_list :: "nat list"

record H5FL_reg_gc_list_t =
  rg_init :: bool
  rg_mutex :: H5TS_dlftt_mutex_t
  rg_mem_freed :: size_t
  rg_first :: "H5FL_reg_head_t list"

record H5FL_arr_node_t =
  an_size :: size_t
  an_allocated :: unsigned
  an_onlist :: unsigned
  an_list :: "nat list"

record H5FL_arr_head_t =
  ah_mutex :: H5TS_dlftt_mutex_t
  ah_allocated :: unsigned
  ah_list_mem :: size_t
  ah_maxelem :: c_int
  ah_list_arr :: "H5FL_arr_node_t list"

record H5FL_arr_gc_list_t =
  ag_init :: bool
  ag_mutex :: H5TS_dlftt_mutex_t
  ag_mem_freed :: size_t
  ag_first :: "H5FL_arr_head_t list"

record H5FL_blk_node_t =
  bn_addr :: nat
  bn_size :: size_t
  bn_allocated :: unsigned
  bn_onlist :: unsigned
  bn_list :: "nat list"

record H5FL_blk_head_t =
  bh_mutex :: H5TS_dlftt_mutex_t
  bh_allocated :: unsigned
  bh_onlist :: unsigned
  bh_list_mem :: size_t
  bh_pq :: "H5FL_blk_node_t list"

record H5FL_blk_gc_list_t =
  bg_init :: bool
  bg_mutex :: H5TS_dlftt_mutex_t
  bg_mem_freed :: size_t
  bg_first :: "H5FL_blk_head_t list"

record H5FL_fac_head_t =
  fh_mutex :: H5TS_dlftt_mutex_t
  fh_allocated :: unsigned
  fh_onlist :: unsigned
  fh_size :: size_t
  fh_list :: "nat list"

record H5FL_fac_gc_list_t =
  fg_init :: bool
  fg_mutex :: H5TS_dlftt_mutex_t
  fg_mem_freed :: size_t
  fg_first :: "H5FL_fac_head_t list"

text \<open>
  The state of the free-list package as one call sees it. A head is named by its
  position in the class's list of heads (the chain from \<open>first\<close> along \<open>next\<close>).
  \<open>fl_malloc_script\<close> gives the outcomes of the coming calls of the system allocator
  (true: memory returned), and an exhausted script means success.
  \<open>fl_blk_node_head\<close> is the regular free list declared by
  \<open>H5FL_DEFINE(H5FL_blk_node_t)\<close>, to which the block class returns its queue nodes.
\<close>

record H5FL_state =
  fl_thread :: H5TS_thread_t
  fl_err_stack :: "H5E_minor_t list"
  fl_trace :: "fl_event list"
  fl_malloc_script :: "bool list"
  fl_next_addr :: nat
  H5FL_reg_glb_mem_lim :: size_t
  H5FL_reg_lst_mem_lim :: size_t
  H5FL_arr_glb_mem_lim :: size_t
  H5FL_arr_lst_mem_lim :: size_t
  H5FL_blk_glb_mem_lim :: size_t
  H5FL_blk_lst_mem_lim :: size_t
  H5FL_fac_glb_mem_lim :: size_t
  H5FL_fac_lst_mem_lim :: size_t
  H5FL_reg_gc_head :: H5FL_reg_gc_list_t
  H5FL_arr_gc_head :: H5FL_arr_gc_list_t
  H5FL_blk_gc_head :: H5FL_blk_gc_list_t
  H5FL_fac_gc_head :: H5FL_fac_gc_list_t
  fl_blk_node_head :: nat

definition fl_log :: "fl_event list \<Rightarrow> H5FL_state \<Rightarrow> H5FL_state" where
  "fl_log evs st = st\<lparr>fl_trace := fl_trace st @ evs\<rparr>"

text \<open>HGOTO_ERROR after a call that returned a negative status.\<close>

definition hgoto_error :: "herr_t \<Rightarrow> H5E_minor_t \<Rightarrow> H5FL_state \<Rightarrow> H5FL_state" where
  "hgoto_error r m st = (if r = FAIL then st\<lparr>fl_err_stack := m # fl_err_stack st\<rparr> else st)"

definition fl_acquire ::
  "H5TS_dlftt_mutex_t \<Rightarrow> H5FL_state \<Rightarrow> herr_t \<times> H5TS_dlftt_mutex_t \<times> H5FL_state" where
  "fl_acquire m st =
     (case H5TS_dlftt_mutex_acquire (fl_thread st) m of
        (r, e', m') \<Rightarrow> (r, m', st\<lparr>fl_thread := e'\<rparr>))"

definition fl_release :: "H5TS_dlftt_mutex_t \<Rightarrow> H5FL_state \<Rightarrow> herr_t \<times> H5TS_dlftt_mutex_t" where
  "fl_release m st = H5TS_dlftt_mutex_release (fl_thread st) m"

text \<open>
  The walk over a class's list of heads: call the per-head pass on each head in turn
  and leave at the first one that does not succeed.
\<close>

fun fl_walk ::
  "(nat \<Rightarrow> H5FL_state \<Rightarrow> herr_t \<times> H5FL_state) \<Rightarrow> nat list \<Rightarrow> H5FL_state \<Rightarrow> herr_t \<times> H5FL_state" where
  "fl_walk f [] st = (SUCCEED, st)"
| "fl_walk f (i # is) st =
     (case f i st of
        (SUCCEED, st') \<Rightarrow> fl_walk f is st'
      | (r, st') \<Rightarrow> (r, st'))"

subsection \<open>Regular free lists\<close>

definition set_reg_head :: "nat \<Rightarrow> H5FL_reg_head_t \<Rightarrow> H5FL_state \<Rightarrow> H5FL_state" where
  "set_reg_head i h st =
     st\<lparr>H5FL_reg_gc_head :=
          (H5FL_reg_gc_head st)\<lparr>rg_first := (rg_first (H5FL_reg_gc_head st))[i := h]\<rparr>\<rparr>"

definition add_reg_mem_freed :: "size_t \<Rightarrow> H5FL_state \<Rightarrow> H5FL_state" where
  "add_reg_mem_freed n st =
     st\<lparr>H5FL_reg_gc_head :=
          (H5FL_reg_gc_head st)\<lparr>rg_mem_freed := rg_mem_freed (H5FL_reg_gc_head st) + n\<rparr>\<rparr>"

text \<open>
  H5FL__reg_gc_list. A head outside the list of heads is a wild pointer; the model
  does not return from it.
\<close>

definition H5FL__reg_gc_list :: "nat \<Rightarrow> H5FL_state \<Rightarrow> herr_t \<times> H5FL_state" where
  "H5FL__reg_gc_list i st0 =
     (if \<not> i < length (rg_first (H5FL_reg_gc_head st0)) then (NORETURN, st0)
      else
       (let st = fl_log [EV_REG_GC_LIST i] st0;
            h = rg_first (H5FL_reg_gc_head st) ! i
        in case fl_acquire (rh_mutex h) st of
             (SUCCEED, m1, st1) \<Rightarrow>
               (let onlist = rh_onlist h;
                    st2 = fl_log (map EV_MM_FREE (rh_list h)) st1;
                    h2 = h\<lparr>rh_mutex := m1, rh_allocated := rh_allocated h - rh_onlist h,
                           rh_list := [], rh_onlist := 0\<rparr>
                in case fl_release m1 st2 of
                     (SUCCEED, m2) \<Rightarrow>
                       (SUCCEED,
                        add_reg_mem_freed (- (ucast onlist * rh_size h))
                          (set_reg_head i (h2\<lparr>rh_mutex := m2\<rparr>) st2))
                   | (r, m2) \<Rightarrow>
                       (r, hgoto_error r H5E_CANTUNLOCK (set_reg_head i (h2\<lparr>rh_mutex := m2\<rparr>) st2)))
           | (r, m1, st1) \<Rightarrow>
               (r, hgoto_error r H5E_CANTLOCK (set_reg_head i (h\<lparr>rh_mutex := m1\<rparr>) st1))))"

definition set_reg_gc_mutex :: "H5TS_dlftt_mutex_t \<Rightarrow> H5FL_state \<Rightarrow> H5FL_state" where
  "set_reg_gc_mutex m st = st\<lparr>H5FL_reg_gc_head := (H5FL_reg_gc_head st)\<lparr>rg_mutex := m\<rparr>\<rparr>"

text \<open>
  H5FL__reg_gc. When the pass over a head fails the function leaves through
  HGOTO_ERROR with the mutex of the list of heads still held.
\<close>

definition H5FL__reg_gc :: "H5FL_state \<Rightarrow> herr_t \<times> H5FL_state" where
  "H5FL__reg_gc st0 =
     (let st = fl_log [EV_REG_GC] st0 in
      if rg_init (H5FL_reg_gc_head st)
      then (case fl_acquire (rg_mutex (H5FL_reg_gc_head st)) st of
              (SUCCEED, m1, st1) \<Rightarrow>
                (case fl_walk H5FL__reg_gc_list [0 ..< length (rg_first (H5FL_reg_gc_head st1))]
                        (set_reg_gc_mutex m1 st1) of
                   (SUCCEED, st2) \<Rightarrow>
                     (case fl_release (rg_mutex (H5FL_reg_gc_head st2)) st2 of
                        (r, m2) \<Rightarrow> (r, hgoto_error r H5E_CANTUNLOCK (set_reg_gc_mutex m2 st2)))
                 | (r, st2) \<Rightarrow> (r, hgoto_error r H5E_CANTGC st2))
            | (r, m1, st1) \<Rightarrow> (r, hgoto_error r H5E_CANTLOCK (set_reg_gc_mutex m1 st1)))
      else (SUCCEED, st))"

text \<open>
  H5FL_reg_free, first part: under the head's mutex the block is linked in front of
  the free list and the count of blocks on the list goes up; then the class's gauge
  of freed memory grows by the size of the block. The result carries the new count.
\<close>

definition H5FL_reg_free_link ::
  "nat \<Rightarrow> nat \<Rightarrow> H5FL_state \<Rightarrow> herr_t \<times> unsigned \<times> H5FL_state" where
  "H5FL_reg_free_link i obj st =
     (if \<not> i < length (rg_first (H5FL_reg_gc_head st)) then (NORETURN, 0, st)
      else
       (let h = rg_first (H5FL_reg_gc_head st) ! i
        in case fl_acquire (rh_mutex h) st of
             (SUCCEED, m1, st1) \<Rightarrow>
               (let onlist = rh_onlist h + 1;
                    h2 = h\<lparr>rh_mutex := m1, rh_list := obj # rh_list h, rh_onlist := onlist\<rparr>
                in case fl_release m1 st1 of
                     (SUCCEED, m2) \<Rightarrow>
                       (SUCCEED, onlist,
                        add_reg_mem_freed (rh_size h) (set_reg_head i (h2\<lparr>rh_mutex := m2\<rparr>) st1))
                   | (r, m2) \<Rightarrow>
                       (r, onlist,
                        hgoto_error r H5E_CANTUNLOCK (set_reg_head i (h2\<lparr>rh_mutex := m2\<rparr>) st1)))
           | (r, m1, st1) \<Rightarrow>
               (r, 0, hgoto_error r H5E_CANTLOCK (set_reg_head i (h\<lparr>rh_mutex := m1\<rparr>) st1))))"

text \<open>
  H5FL_reg_free, second part: the two checks of the memory limits, one after the
  other. The C function returns NULL in every case; the status here tells whether it
  left through HGOTO_ERROR.
\<close>

definition H5FL_reg_free_limits ::
  "nat \<Rightarrow> unsigned \<Rightarrow> H5FL_state \<Rightarrow> herr_t \<times> H5FL_state" where
  "H5FL_reg_free_limits i onlist st =
     (case (if ucast onlist * rh_size (rg_first (H5FL_reg_gc_head st) ! i) > H5FL_reg_lst_mem_lim st
            then H5FL__reg_gc_list i st else (SUCCEED, st)) of
        (SUCCEED, st1) \<Rightarrow>
          (if rg_mem_freed (H5FL_reg_gc_head st1) > H5FL_reg_glb_mem_lim st1
           then (case H5FL__reg_gc st1 of (r, st2) \<Rightarrow> (r, hgoto_error r H5E_CANTGC st2))
           else (SUCCEED, st1))
      | (r, st1) \<Rightarrow> (r, hgoto_error r H5E_CANTGC st1))"

definition H5FL_reg_free :: "nat \<Rightarrow> nat \<Rightarrow> H5FL_state \<Rightarrow> herr_t \<times> H5FL_state" where
  "H5FL_reg_free i obj st =
     (case H5FL_reg_free_link i obj st of
        (SUCCEED, onlist, st1) \<Rightarrow> H5FL_reg_free_limits i onlist st1
      | (r, onlist, st1) \<Rightarrow> (r, st1))"


subsection \<open>Factory free lists\<close>

definition set_fac_head :: "nat \<Rightarrow> H5FL_fac_head_t \<Rightarrow> H5FL_state \<Rightarrow> H5FL_state" where
  "set_fac_head i h st =
     st\<lparr>H5FL_fac_gc_head :=
          (H5FL_fac_gc_head st)\<lparr>fg_first := (fg_first (H5FL_fac_gc_head st))[i := h]\<rparr>\<rparr>"

definition add_fac_mem_freed :: "size_t \<Rightarrow> H5FL_state \<Rightarrow> H5FL_state" where
  "add_fac_mem_freed n st =
     st\<lparr>H5FL_fac_gc_head :=
          (H5FL_fac_gc_head st)\<lparr>fg_mem_freed := fg_mem_freed (H5FL_fac_gc_head st) + n\<rparr>\<rparr>"

definition set_fac_gc_mutex :: "H5TS_dlftt_mutex_t \<Rightarrow> H5FL_state \<Rightarrow> H5FL_state" where
  "set_fac_gc_mutex m st = st\<lparr>H5FL_fac_gc_head := (H5FL_fac_gc_head st)\<lparr>fg_mutex := m\<rparr>\<rparr>"

definition H5FL__fac_gc_list :: "nat \<Rightarrow> H5FL_state \<Rightarrow> herr_t \<times> H5FL_state" where
  "H5FL__fac_gc_list i st =
     (if \<not> i < length (fg_first (H5FL_fac_gc_head st)) then (NORETURN, st)
      else
       (let h = fg_first (H5FL_fac_gc_head st) ! i
        in case fl_acquire (fh_mutex h) st of
             (SUCCEED, m1, st1) \<Rightarrow>
               (let onlist = fh_onlist h;
                    st2 = fl_log (map EV_MM_FREE (fh_list h)) st1;
                    h2 = h\<lparr>fh_mutex := m1, fh_allocated := fh_allocated h - fh_onlist h,
                           fh_list := [], fh_onlist := 0\<rparr>
                in case fl_release m1 st2 of
                     (SUCCEED, m2) \<Rightarrow>
                       (SUCCEED,
                        add_fac_mem_freed (- (ucast onlist * fh_size h))
                          (set_fac_head i (h2\<lparr>fh_mutex := m2\<rparr>) st2))
                   | (r, m2) \<Rightarrow>
                       (r, hgoto_error r H5E_CANTUNLOCK (set_fac_head i (h2\<lparr>fh_mutex := m2\<rparr>) st2)))
           | (r, m1, st1) \<Rightarrow>
               (r, hgoto_error r H5E_CANTLOCK (set_fac_head i (h\<lparr>fh_mutex := m1\<rparr>) st1))))"

text \<open>
  H5FL__fac_gc. The assertion that no freed memory is left after the walk is an abort
  when it fails.
\<close>

definition H5FL__fac_gc :: "H5FL_state \<Rightarrow> herr_t \<times> H5FL_state" where
  "H5FL__fac_gc st0 =
     (let st = fl_log [EV_FAC_GC] st0 in
      if fg_init (H5FL_fac_gc_head st)
      then (case fl_acquire (fg_mutex (H5FL_fac_gc_head st)) st of
              (SUCCEED, m1, st1) \<Rightarrow>
                (case fl_walk H5FL__fac_gc_list [0 ..< length (fg_first (H5FL_fac_gc_head st1))]
                        (set_fac_gc_mutex m1 st1) of
                   (SUCCEED, st2) \<Rightarrow>
                     if fg_mem_freed (H5FL_fac_gc_head st2) \<noteq> 0 then (NORETURN, st2)
                     else (case fl_release (fg_mutex (H5FL_fac_gc_head st2)) st2 of
                             (r, m2) \<Rightarrow> (r, hgoto_error r H5E_CANTUNLOCK (set_fac_gc_mutex m2 st2)))
                 | (r, st2) \<Rightarrow> (r, hgoto_error r H5E_CANTGC st2))
            | (r, m1, st1) \<Rightarrow> (r, hgoto_error r H5E_CANTLOCK (set_fac_gc_mutex m1 st1)))
      else (SUCCEED, st))"

subsection \<open>Array free lists\<close>

definition set_arr_head :: "nat \<Rightarrow> H5FL_arr_head_t \<Rightarrow> H5FL_state \<Rightarrow> H5FL_state" where
  "set_arr_head i h st =
     st\<lparr>H5FL_arr_gc_head :=
          (H5FL_arr_gc_head st)\<lparr>ag_first := (ag_first (H5FL_arr_gc_head st))[i := h]\<rparr>\<rparr>"

definition add_arr_mem_freed :: "size_t \<Rightarrow> H5FL_state \<Rightarrow> H5FL_state" where
  "add_arr_mem_freed n st =
     st\<lparr>H5FL_arr_gc_head :=
          (H5FL_arr_gc_head st)\<lparr>ag_mem_freed := ag_mem_freed (H5FL_arr_gc_head st) + n\<rparr>\<rparr>"

definition set_arr_gc_mutex :: "H5TS_dlftt_mutex_t \<Rightarrow> H5FL_state \<Rightarrow> H5FL_state" where
  "set_arr_gc_mutex m st = st\<lparr>H5FL_arr_gc_head := (H5FL_arr_gc_head st)\<lparr>ag_mutex := m\<rparr>\<rparr>"

text \<open>
  One turn of the loop of H5FL__arr_gc_list over the array of free lists: the head,
  the memory freed so far and the blocks freed so far.
\<close>

definition arr_gc_step ::
  "H5FL_arr_head_t \<times> size_t \<times> nat list \<Rightarrow> nat \<Rightarrow> H5FL_arr_head_t \<times> size_t \<times> nat list" where
  "arr_gc_step acc u =
     (case acc of (h, total_freed, freed) \<Rightarrow>
        (let n = ah_list_arr h ! u in
         if an_onlist n > 0
         then (let list_freed = ucast (an_onlist n) * an_size n in
               (h\<lparr>ah_list_arr :=
                     (ah_list_arr h)[u := n\<lparr>an_allocated := an_allocated n - an_onlist n,
                                             an_list := [], an_onlist := 0\<rparr>],
                   ah_allocated := ah_allocated h - an_onlist n,
                   ah_list_mem := ah_list_mem h - list_freed\<rparr>,
                total_freed + list_freed, freed @ an_list n))
         else (h, total_freed, freed)))"

definition H5FL__arr_gc_list :: "nat \<Rightarrow> H5FL_state \<Rightarrow> herr_t \<times> H5FL_state" where
  "H5FL__arr_gc_list i st =
     (if \<not> i < length (ag_first (H5FL_arr_gc_head st)) then (NORETURN, st)
      else
       (let h = ag_first (H5FL_arr_gc_head st) ! i
        in case fl_acquire (ah_mutex h) st of
             (SUCCEED, m1, st1) \<Rightarrow>
               (case foldl arr_gc_step (h\<lparr>ah_mutex := m1\<rparr>, 0, [])
                       [0 ..< min (unat (ah_maxelem h)) (length (ah_list_arr h))] of
                  (h2, total_freed, freed) \<Rightarrow>
                    (let st2 = fl_log (map EV_MM_FREE freed) st1 in
                     if ah_list_mem h2 \<noteq> 0 then (NORETURN, set_arr_head i h2 st2)
                     else (case fl_release m1 st2 of
                             (SUCCEED, m2) \<Rightarrow>
                               (SUCCEED,
                                add_arr_mem_freed (- total_freed)
                                  (set_arr_head i (h2\<lparr>ah_mutex := m2\<rparr>) st2))
                           | (r, m2) \<Rightarrow>
                               (r, hgoto_error r H5E_CANTUNLOCK
                                     (set_arr_head i (h2\<lparr>ah_mutex := m2\<rparr>) st2)))))
           | (r, m1, st1) \<Rightarrow>
               (r, hgoto_error r H5E_CANTLOCK (set_arr_head i (h\<lparr>ah_mutex := m1\<rparr>) st1))))"

definition H5FL__arr_gc :: "H5FL_state \<Rightarrow> herr_t \<times> H5FL_state" where
  "H5FL__arr_gc st0 =
     (let st = fl_log [EV_ARR_GC] st0 in
      if ag_init (H5FL_arr_gc_head st)
      then (case fl_acquire (ag_mutex (H5FL_arr_gc_head st)) st of
              (SUCCEED, m1, st1) \<Rightarrow>
                (case fl_walk H5FL__arr_gc_list [0 ..< length (ag_first (H5FL_arr_gc_head st1))]
                        (set_arr_gc_mutex m1 st1) of
                   (SUCCEED, st2) \<Rightarrow>
                     if ag_mem_freed (H5FL_arr_gc_head st2) \<noteq> 0 then (NORETURN, st2)
                     else (case fl_release (ag_mutex (H5FL_arr_gc_head st2)) st2 of
                             (r, m2) \<Rightarrow> (r, hgoto_error r H5E_CANTUNLOCK (set_arr_gc_mutex m2 st2)))
                 | (r, st2) \<Rightarrow> (r, hgoto_error r H5E_CANTGC st2))
            | (r, m1, st1) \<Rightarrow> (r, hgoto_error r H5E_CANTLOCK (set_arr_gc_mutex m1 st1)))
      else (SUCCEED, st))"

subsection \<open>Block free lists\<close>

definition set_blk_head :: "nat \<Rightarrow> H5FL_blk_head_t \<Rightarrow> H5FL_state \<Rightarrow> H5FL_state" where
  "set_blk_head i h st =
     st\<lparr>H5FL_blk_gc_head :=
          (H5FL_blk_gc_head st)\<lparr>bg_first := (bg_first (H5FL_blk_gc_head st))[i := h]\<rparr>\<rparr>"

definition add_blk_mem_freed :: "size_t \<Rightarrow> H5FL_state \<Rightarrow> H5FL_state" where
  "add_blk_mem_freed n st =
     st\<lparr>H5FL_blk_gc_head :=
          (H5FL_blk_gc_head st)\<lparr>bg_mem_freed := bg_mem_freed (H5FL_blk_gc_head st) + n\<rparr>\<rparr>"

definition set_blk_gc_mutex :: "H5TS_dlftt_mutex_t \<Rightarrow> H5FL_state \<Rightarrow> H5FL_state" where
  "set_blk_gc_mutex m st = st\<lparr>H5FL_blk_gc_head := (H5FL_blk_gc_head st)\<lparr>bg_mutex := m\<rparr>\<rparr>"

text \<open>
  The loop of H5FL__blk_gc_list over the priority queue. The accumulator holds the
  nodes kept in the queue, the head's count of allocated blocks, the head's memory on
  free lists and the total freed. A node with no block left allocated is taken out
  of the queue and returned with H5FL_FREE to the regular free list of queue nodes;
  what that call returns is dropped by the caller.
\<close>

fun blk_gc_pq ::
  "H5FL_blk_node_t list \<Rightarrow> H5FL_blk_node_t list \<Rightarrow> unsigned \<Rightarrow> size_t \<Rightarrow> size_t \<Rightarrow> H5FL_state
     \<Rightarrow> herr_t \<times> H5FL_blk_node_t list \<times> unsigned \<times> size_t \<times> size_t \<times> H5FL_state" where
  "blk_gc_pq [] kept alloc list_mem tot st = (SUCCEED, kept, alloc, list_mem, tot, st)"
| "blk_gc_pq (n # ns) kept alloc list_mem tot st =
     (let st1 = fl_log (map EV_MM_FREE (bn_list n)) st;
          list_freed = ucast (bn_onlist n) * bn_size n;
          n' = n\<lparr>bn_allocated := bn_allocated n - bn_onlist n, bn_list := [], bn_onlist := 0\<rparr>
      in if bn_allocated n' = 0
         then (case H5FL_reg_free (fl_blk_node_head st1) (bn_addr n) st1 of
                 (NORETURN, st2) \<Rightarrow>
                   (NORETURN, kept @ ns, alloc - bn_onlist n, list_mem - list_freed,
                    tot + list_freed, st2)
               | (r, st2) \<Rightarrow>
                   blk_gc_pq ns kept (alloc - bn_onlist n) (list_mem - list_freed)
                     (tot + list_freed) st2)
         else blk_gc_pq ns (kept @ [n']) (alloc - bn_onlist n) (list_mem - list_freed)
                (tot + list_freed) st1)"

definition H5FL__blk_gc_list :: "nat \<Rightarrow> H5FL_state \<Rightarrow> herr_t \<times> H5FL_state" where
  "H5FL__blk_gc_list i st =
     (if \<not> i < length (bg_first (H5FL_blk_gc_head st)) then (NORETURN, st)
      else
       (let h = bg_first (H5FL_blk_gc_head st) ! i
        in case fl_acquire (bh_mutex h) st of
             (SUCCEED, m1, st1) \<Rightarrow>
               (case blk_gc_pq (bh_pq h) [] (bh_allocated h) (bh_list_mem h) 0 st1 of
                  (r1, kept, alloc, list_mem, total_freed, st2) \<Rightarrow>
                    (let h2 = h\<lparr>bh_mutex := m1, bh_pq := kept, bh_allocated := alloc,
                                bh_list_mem := list_mem, bh_onlist := 0\<rparr>
                     in if r1 \<noteq> SUCCEED \<or> list_mem \<noteq> 0 then (NORETURN, set_blk_head i h2 st2)
                        else (case fl_release m1 st2 of
                                (SUCCEED, m2) \<Rightarrow>
                                  (SUCCEED,
                                   add_blk_mem_freed (- total_freed)
                                     (set_blk_head i (h2\<lparr>bh_mutex := m2\<rparr>) st2))
                              | (r, m2) \<Rightarrow>
                                  (r, hgoto_error r H5E_CANTUNLOCK
                                        (set_blk_head i (h2\<lparr>bh_mutex := m2\<rparr>) st2)))))
           | (r, m1, st1) \<Rightarrow>
               (r, hgoto_error r H5E_CANTLOCK (set_blk_head i (h\<lparr>bh_mutex := m1\<rparr>) st1))))"

definition H5FL__blk_gc :: "H5FL_state \<Rightarrow> herr_t \<times> H5FL_state" where
  "H5FL__blk_gc st0 =
     (let st = fl_log [EV_BLK_GC] st0 in
      if bg_init (H5FL_blk_gc_head st)
      then (case fl_acquire (bg_mutex (H5FL_blk_gc_head st)) st of
              (SUCCEED, m1, st1) \<Rightarrow>
                (case fl_walk H5FL__blk_gc_list [0 ..< length (bg_first (H5FL_blk_gc_head st1))]
                        (set_blk_gc_mutex m1 st1) of
                   (SUCCEED, st2) \<Rightarrow>
                     if bg_mem_freed (H5FL_blk_gc_head st2) \<noteq> 0 then (NORETURN, st2)
                     else (case fl_release (bg_mutex (H5FL_blk_gc_head st2)) st2 of
                             (r, m2) \<Rightarrow> (r, hgoto_error r H5E_CANTUNLOCK (set_blk_gc_mutex m2 st2)))
                 | (r, st2) \<Rightarrow> (r, hgoto_error r H5E_CANTGC st2))
            | (r, m1, st1) \<Rightarrow> (r, hgoto_error r H5E_CANTLOCK (set_blk_gc_mutex m1 st1)))
      else (SUCCEED, st))"

subsection \<open>Garbage collection of all classes, and allocation\<close>

definition H5FL_garbage_coll :: "H5FL_state \<Rightarrow> herr_t \<times> H5FL_state" where
  "H5FL_garbage_coll st0 =
     (case H5FL__arr_gc (fl_log [EV_GARBAGE_COLL] st0) of
        (SUCCEED, st1) \<Rightarrow>
          (case H5FL__blk_gc st1 of
             (SUCCEED, st2) \<Rightarrow>
               (case H5FL__reg_gc st2 of
                  (SUCCEED, st3) \<Rightarrow>
                    (case H5FL__fac_gc st3 of
                       (r, st4) \<Rightarrow> (r, hgoto_error r H5E_CANTGC st4))
                | (r, st3) \<Rightarrow> (r, hgoto_error r H5E_CANTGC st3))
           | (r, st2) \<Rightarrow> (r, hgoto_error r H5E_CANTGC st2))
      | (r, st1) \<Rightarrow> (r, hgoto_error r H5E_CANTGC st1))"

text \<open>
  The system allocator H5MM_malloc: the outcome of the call comes from the script; a
  successful call returns a fresh address (None is NULL).
\<close>

definition H5MM_malloc :: "size_t \<Rightarrow> H5FL_state \<Rightarrow> nat option \<times> H5FL_state" where
  "H5MM_malloc n st =
     (let ok = (case fl_malloc_script st of [] \<Rightarrow> True | b # bs \<Rightarrow> b);
          st1 = (fl_log [EV_MALLOC n ok] st)\<lparr>fl_malloc_script := tl (fl_malloc_script st)\<rparr>
      in if ok then (Some (fl_next_addr st), st1\<lparr>fl_next_addr := fl_next_addr st + 1\<rparr>)
         else (None, st1))"

definition H5FL__malloc :: "size_t \<Rightarrow> H5FL_state \<Rightarrow> herr_t \<times> nat option \<times> H5FL_state" where
  "H5FL__malloc mem_size st =
     (case H5MM_malloc mem_size st of
        (Some p, st1) \<Rightarrow> (SUCCEED, Some p, st1)
      | (None, st1) \<Rightarrow>
          (case H5FL_garbage_coll st1 of
             (SUCCEED, st2) \<Rightarrow>
               (case H5MM_malloc mem_size st2 of
                  (Some p, st3) \<Rightarrow> (SUCCEED, Some p, st3)
                | (None, st3) \<Rightarrow> (FAIL, None, hgoto_error FAIL H5E_CANTALLOC st3))
           | (r, st2) \<Rightarrow> (r, None, hgoto_error r H5E_CANTGC st2)))"

text \<open>
  H5FL_set_free_list_limits: each \<open>int\<close> argument is compared with -1 and otherwise
  converted to \<open>size_t\<close>; the constant UINT_MAX is converted to \<open>size_t\<close> by the
  conditional operator.
\<close>

definition H5FL_set_free_list_limits ::
  "c_int \<Rightarrow> c_int \<Rightarrow> c_int \<Rightarrow> c_int \<Rightarrow> c_int \<Rightarrow> c_int \<Rightarrow> c_int \<Rightarrow> c_int \<Rightarrow> H5FL_state
     \<Rightarrow> herr_t \<times> H5FL_state" where
  "H5FL_set_free_list_limits reg_global_lim reg_list_lim arr_global_lim arr_list_lim
       blk_global_lim blk_list_lim fac_global_lim fac_list_lim st =
     (SUCCEED,
      st\<lparr>H5FL_reg_glb_mem_lim := (if reg_global_lim = - 1 then ucast UINT_MAX else scast reg_global_lim),
         H5FL_reg_lst_mem_lim := (if reg_list_lim = - 1 then ucast UINT_MAX else scast reg_list_lim),
         H5FL_arr_glb_mem_lim := (if arr_global_lim = - 1 then ucast UINT_MAX else scast arr_global_lim),
         H5FL_arr_lst_mem_lim := (if arr_list_lim = - 1 then ucast UINT_MAX else scast arr_list_lim),
         H5FL_blk_glb_mem_lim := (if blk_global_lim = - 1 then ucast UINT_MAX else scast blk_global_lim),
         H5FL_blk_lst_mem_lim := (if blk_list_lim = - 1 then ucast UINT_MAX else scast blk_list_lim),
         H5FL_fac_glb_mem_lim := (if fac_global_lim = - 1 then ucast UINT_MAX else scast fac_global_lim),
         H5FL_fac_lst_mem_lim := (if fac_list_lim = - 1 then ucast UINT_MAX else scast fac_list_lim)\<rparr>)"


section \<open>Properties of the free lists\<close>

text \<open>
  Events of a garbage collection: anything but a call of the system allocator and the
  entry of H5FL_garbage_coll. \<open>gc_ext st st'\<close>: from \<open>st\<close> to \<open>st'\<close> only such events were
  logged and the allocator was not called.
\<close>

fun is_malloc :: "fl_event \<Rightarrow> bool" where
  "is_malloc (EV_MALLOC n b) = True"
| "is_malloc e = False"

definition gc_events :: "fl_event list \<Rightarrow> bool" where
  "gc_events evs = list_all (\<lambda>e. \<not> is_malloc e \<and> e \<noteq> EV_GARBAGE_COLL) evs"

definition gc_ext :: "H5FL_state \<Rightarrow> H5FL_state \<Rightarrow> bool" where
  "gc_ext st st' =
     ((\<exists>evs. fl_trace st' = fl_trace st @ evs \<and> gc_events evs)
      \<and> fl_malloc_script st' = fl_malloc_script st \<and> fl_next_addr st' = fl_next_addr st)"

lemma gc_events_simps [simp]:
  "gc_events []"
  "gc_events (xs @ ys) = (gc_events xs \<and> gc_events ys)"
  "gc_events (e # xs) = (\<not> is_malloc e \<and> e \<noteq> EV_GARBAGE_COLL \<and> gc_events xs)"
  "gc_events (map EV_MM_FREE bs)"
  by (auto simp: gc_events_def list_all_iff)

lemma gc_ext_refl [simp]: "gc_ext st st"
  by (simp add: gc_ext_def)

lemma gc_ext_trans: "gc_ext a b \<Longrightarrow> gc_ext b c \<Longrightarrow> gc_ext a c"
  by (auto simp: gc_ext_def)

lemma gc_ext_log: "gc_events evs \<Longrightarrow> gc_ext st st' \<Longrightarrow> gc_ext st (fl_log evs st')"
  by (auto simp: gc_ext_def fl_log_def)

lemma gc_ext_log_first: "gc_events evs \<Longrightarrow> gc_ext (fl_log evs st) st' \<Longrightarrow> gc_ext st st'"
  by (auto simp: gc_ext_def fl_log_def)

lemma gc_ext_hgoto [simp]: "gc_ext st (hgoto_error r m st') = gc_ext st st'"
  by (simp add: gc_ext_def hgoto_error_def)

lemma gc_ext_setters [simp]:
  "gc_ext st (set_reg_head i h st') = gc_ext st st'"
  "gc_ext st (add_reg_mem_freed n st') = gc_ext st st'"
  "gc_ext st (set_reg_gc_mutex m st') = gc_ext st st'"
  "gc_ext st (set_fac_head i fh st') = gc_ext st st'"
  "gc_ext st (add_fac_mem_freed n st') = gc_ext st st'"
  "gc_ext st (set_fac_gc_mutex m st') = gc_ext st st'"
  "gc_ext st (set_arr_head i ah st') = gc_ext st st'"
  "gc_ext st (add_arr_mem_freed n st') = gc_ext st st'"
  "gc_ext st (set_arr_gc_mutex m st') = gc_ext st st'"
  "gc_ext st (set_blk_head i bh st') = gc_ext st st'"
  "gc_ext st (add_blk_mem_freed n st') = gc_ext st st'"
  "gc_ext st (set_blk_gc_mutex m st') = gc_ext st st'"
  by (simp_all add: gc_ext_def set_reg_head_def add_reg_mem_freed_def set_reg_gc_mutex_def
        set_fac_head_def add_fac_mem_freed_def set_fac_gc_mutex_def
        set_arr_head_def add_arr_mem_freed_def set_arr_gc_mutex_def
        set_blk_head_def add_blk_mem_freed_def set_blk_gc_mutex_def)

lemma gc_ext_acquire: "fl_acquire m st = (r, m', st') \<Longrightarrow> gc_ext st st'"
  by (auto simp: fl_acquire_def gc_ext_def split: prod.splits)

lemma gc_ext_walk:
  assumes "\<And>i s. gc_ext s (snd (f i s))"
  shows "gc_ext st (snd (fl_walk f is st))"
proof (induction "is" arbitrary: st)
  case Nil
  then show ?case by simp
next
  case (Cons i "is")
  obtain r s1 where f: "f i st = (r, s1)" by (cases "f i st")
  from assms [of st i] f have a: "gc_ext st s1" by simp
  show ?case
  proof (cases r)
    case SUCCEED
    with f a Cons.IH [of s1] show ?thesis by (auto intro: gc_ext_trans)
  qed (use f a in auto)
qed

lemma gc_ext_reg_gc_list: "gc_ext st (snd (H5FL__reg_gc_list i st))"
  by (auto simp: H5FL__reg_gc_list_def Let_def
        intro!: gc_ext_log_first [of "[EV_REG_GC_LIST i]"] gc_ext_log
        dest!: gc_ext_acquire split: prod.splits herr_t.splits)


lemma gc_ext_reg_gc_entry: "gc_ext (fl_log [EV_REG_GC] st) (snd (H5FL__reg_gc st))"
proof -
  let ?st = "fl_log [EV_REG_GC] st"
  show ?thesis
  proof (cases "rg_init (H5FL_reg_gc_head ?st)")
    case False
    then show ?thesis by (simp add: H5FL__reg_gc_def Let_def)
  next
    case True
    obtain r m1 st1 where a: "fl_acquire (rg_mutex (H5FL_reg_gc_head ?st)) ?st = (r, m1, st1)"
      by (metis prod_cases3)
    note e1 = gc_ext_acquire [OF a]
    show ?thesis
    proof (cases "r = SUCCEED")
      case False
      with True a e1 show ?thesis by (cases r) (simp_all add: H5FL__reg_gc_def Let_def)
    next
      case rs: True
      obtain r2 st2 where
        w: "fl_walk H5FL__reg_gc_list [0 ..< length (rg_first (H5FL_reg_gc_head st1))]
              (set_reg_gc_mutex m1 st1) = (r2, st2)" by force
      have "gc_ext (set_reg_gc_mutex m1 st1) (snd (fl_walk H5FL__reg_gc_list
               [0 ..< length (rg_first (H5FL_reg_gc_head st1))] (set_reg_gc_mutex m1 st1)))"
        by (rule gc_ext_walk) (rule gc_ext_reg_gc_list)
      with w have "gc_ext (set_reg_gc_mutex m1 st1) st2" by simp
      then have "gc_ext st1 st2" by (simp add: gc_ext_def set_reg_gc_mutex_def)
      with e1 have e2: "gc_ext ?st st2" by (rule gc_ext_trans)
      obtain r3 m2 where rl: "fl_release (rg_mutex (H5FL_reg_gc_head st2)) st2 = (r3, m2)"
        by force
      from True a rs w rl e2 show ?thesis
        by (cases r2) (simp_all add: H5FL__reg_gc_def Let_def)
    qed
  qed
qed


















text \<open>The events logged between two states of the package.\<close>

definition new_events :: "H5FL_state \<Rightarrow> H5FL_state \<Rightarrow> fl_event list" where
  "new_events st st' = drop (length (fl_trace st)) (fl_trace st')"

text \<open>
  The package after H5FL_init: the default limits, the four lists of heads
  initialised and empty. The state is that of thread 1, with nothing logged.
\<close>

definition fl_state_init :: H5FL_state where
  "fl_state_init =
     \<lparr>fl_thread = new_thread 1, fl_err_stack = [], fl_trace = [], fl_malloc_script = [],
      fl_next_addr = 4096,
      H5FL_reg_glb_mem_lim = 1048576, H5FL_reg_lst_mem_lim = 65536,
      H5FL_arr_glb_mem_lim = 4194304, H5FL_arr_lst_mem_lim = 262144,
      H5FL_blk_glb_mem_lim = 16777216, H5FL_blk_lst_mem_lim = 1048576,
      H5FL_fac_glb_mem_lim = 16777216, H5FL_fac_lst_mem_lim = 1048576,
      H5FL_reg_gc_head = \<lparr>rg_init = True, rg_mutex = H5TS_dlftt_mutex_init, rg_mem_freed = 0,
                           rg_first = []\<rparr>,
      H5FL_arr_gc_head = \<lparr>ag_init = True, ag_mutex = H5TS_dlftt_mutex_init, ag_mem_freed = 0,
                           ag_first = []\<rparr>,
      H5FL_blk_gc_head = \<lparr>bg_init = True, bg_mutex = H5TS_dlftt_mutex_init, bg_mem_freed = 0,
                           bg_first = []\<rparr>,
      H5FL_fac_gc_head = \<lparr>fg_init = True, fg_mutex = H5TS_dlftt_mutex_init, fg_mem_freed = 0,
                           fg_first = []\<rparr>,
      fl_blk_node_head = 0\<rparr>"

lemma gc_ext_entry_trace:
  "gc_ext (fl_log [e] st) st' \<Longrightarrow>
     \<exists>evs. fl_trace st' = fl_trace st @ e # evs \<and> gc_events evs
        \<and> fl_malloc_script st' = fl_malloc_script st \<and> fl_next_addr st' = fl_next_addr st"
  by (auto simp: gc_ext_def fl_log_def)





lemma gc_events_classes:
  "gc_events evs \<Longrightarrow> x \<in> set (pre @ evs) \<Longrightarrow> x \<notin> set pre \<Longrightarrow> x \<in> set evs"
  by auto



text \<open>A state in which the next call of the system allocator fails and the one after succeeds.\<close>

definition fl_state_exhausted :: H5FL_state where
  "fl_state_exhausted = fl_state_init\<lparr>fl_malloc_script := [False]\<rparr>"

lemmas fl_eval_defs =
  fl_state_exhausted_def fl_state_init_def new_thread_def H5TS_dlftt_mutex_init_def
  H5MM_malloc_def H5FL__malloc_def H5FL_garbage_coll_def
  H5FL__arr_gc_def H5FL__blk_gc_def H5FL__reg_gc_def H5FL__fac_gc_def
  H5FL__reg_gc_list_def H5FL_reg_free_def H5FL_reg_free_link_def H5FL_reg_free_limits_def
  fl_log_def hgoto_error_def fl_acquire_def fl_release_def
  set_reg_head_def add_reg_mem_freed_def set_reg_gc_mutex_def
  set_fac_gc_mutex_def set_arr_gc_mutex_def set_blk_gc_mutex_def
  H5TS_dlftt_mutex_acquire_def H5TS_dlftt_mutex_release_def
  H5TS__get_dlftt_def H5TS__tinfo_get_def H5TS__tinfo_create_def
  H5TS_mutex_lock_def pthread_mutex_lock_def H5TS_mutex_unlock_def pthread_mutex_unlock_def
  new_events_def Let_def


text \<open>
  The pass fails when a lock cannot be taken: with the mutex of the list of array
  heads destroyed, H5FL__malloc fails without a second allocation, H5E_CANTGC on top of
  the error stack.
\<close>

definition fl_state_bad_lock :: H5FL_state where
  "fl_state_bad_lock =
     fl_state_exhausted\<lparr>H5FL_arr_gc_head :=
        \<lparr>ag_init = True,
         ag_mutex = \<lparr>dm_mtx = \<lparr>mtx_valid = False, mtx_type = H5TS_MUTEX_TYPE_PLAIN,
                               mtx_owner = None, mtx_depth = 0, mtx_calls = 0\<rparr>, dm_dlftt = 0\<rparr>,
         ag_mem_freed = 0, ag_first = []\<rparr>\<rparr>"

lemma malloc_gc_failure_example:
  "fst (H5FL__malloc 64 fl_state_bad_lock) = FAIL
   \<and> fst (snd (H5FL__malloc 64 fl_state_bad_lock)) = None
   \<and> fl_err_stack (snd (snd (H5FL__malloc 64 fl_state_bad_lock)))
        = [H5E_CANTGC, H5E_CANTGC, H5E_CANTLOCK]
   \<and> fl_trace (snd (snd (H5FL__malloc 64 fl_state_bad_lock)))
        = [EV_MALLOC 64 False, EV_GARBAGE_COLL, EV_ARR_GC]"
  by (simp add: fl_state_bad_lock_def fl_eval_defs)

text \<open>
  The claim's reading of a stored cap: -1 stores UINT_MAX; any other argument is
  stored converted to \<open>size_t\<close>, which for a non-negative argument is the same number.
\<close>

definition cap_stored :: "c_int \<Rightarrow> size_t \<Rightarrow> bool" where
  "cap_stored arg cap =
     ((arg = - 1 \<longrightarrow> cap = ucast UINT_MAX \<and> unat cap = 2 ^ 32 - 1)
      \<and> (arg \<noteq> - 1 \<longrightarrow> cap = scast arg)
      \<and> (0 \<le> sint arg \<longrightarrow> uint cap = sint arg))"

lemma uint_scast_nonneg:
  "0 \<le> sint (x :: 32 word) \<Longrightarrow> uint (scast x :: 64 word) = sint x"
proof -
  assume a: "0 \<le> sint x"
  have b: "sint x < 2 ^ 31" using sint_lt [of x] by simp
  have c: "(2::int) ^ 31 < 2 ^ 64" by simp
  from b c have d: "sint x < 2 ^ LENGTH(64)" by simp
  have "uint (scast x :: 64 word) = take_bit LENGTH(64) (sint x)"
    unfolding scast_eq by (rule uint_word_of_int_eq)
  also have "\<dots> = sint x" using a d by (rule take_bit_int_eq_self)
  finally show ?thesis .
qed

lemma unat_ucast_UINT_MAX: "unat (ucast UINT_MAX :: 64 word) = 2 ^ 32 - 1"
  by (simp add: UINT_MAX_def)

lemma cap_stored_conversion:
  "cap_stored arg (if arg = - 1 then ucast UINT_MAX else scast arg)"
proof (cases "arg = - 1")
  case True
  then have "sint arg = - 1" by simp
  with True show ?thesis
    by (simp add: cap_stored_def unat_ucast_UINT_MAX)
next
  case False
  then show ?thesis
    by (simp add: cap_stored_def uint_scast_nonneg)
qed

text \<open>
  Claim C8. H5FL_set_free_list_limits succeeds and stores, for each of its eight
  arguments, the cap of the corresponding limit variable: UINT_MAX (the largest
  \<open>unsigned\<close> value) for -1, and the argument converted to \<open>size_t\<close> otherwise, which
  is the argument's own value when that is not negative.
\<close>

theorem set_free_list_limits_stores_caps:
  "\<exists>st'. H5FL_set_free_list_limits rg rl ag al bg bl fg fl st = (SUCCEED, st')
      \<and> cap_stored rg (H5FL_reg_glb_mem_lim st') \<and> cap_stored rl (H5FL_reg_lst_mem_lim st')
      \<and> cap_stored ag (H5FL_arr_glb_mem_lim st') \<and> cap_stored al (H5FL_arr_lst_mem_lim st')
      \<and> cap_stored bg (H5FL_blk_glb_mem_lim st') \<and> cap_stored bl (H5FL_blk_lst_mem_lim st')
      \<and> cap_stored fg (H5FL_fac_glb_mem_lim st') \<and> cap_stored fl (H5FL_fac_lst_mem_lim st')"
  by (simp add: H5FL_set_free_list_limits_def cap_stored_conversion)

theorem set_free_list_limits_stores_caps_witness:
  "H5FL_reg_glb_mem_lim (snd (H5FL_set_free_list_limits (- 1) 65536 0 (- 1) 7 8 9 10 fl_state_init))
     = 4294967295
   \<and> H5FL_reg_lst_mem_lim (snd (H5FL_set_free_list_limits (- 1) 65536 0 (- 1) 7 8 9 10 fl_state_init))
     = 65536
   \<and> H5FL_arr_glb_mem_lim (snd (H5FL_set_free_list_limits (- 1) 65536 0 (- 1) 7 8 9 10 fl_state_init))
     = 0
   \<and> H5FL_arr_lst_mem_lim (snd (H5FL_set_free_list_limits (- 1) 65536 0 (- 1) 7 8 9 10 fl_state_init))
     = 4294967295"
proof -
  have s: "sint (65536 :: 32 word) = 65536" "sint (0 :: 32 word) = 0" by simp_all
  from set_free_list_limits_stores_caps [of "- 1" 65536 0 "- 1" 7 8 9 10 fl_state_init]
  obtain st' where
    e: "H5FL_set_free_list_limits (- 1) 65536 0 (- 1) 7 8 9 10 fl_state_init = (SUCCEED, st')"
    and c: "cap_stored (- 1) (H5FL_reg_glb_mem_lim st')" "cap_stored 65536 (H5FL_reg_lst_mem_lim st')"
      "cap_stored 0 (H5FL_arr_glb_mem_lim st')" "cap_stored (- 1) (H5FL_arr_lst_mem_lim st')"
    by blast
  from c have "H5FL_reg_glb_mem_lim st' = 4294967295" "H5FL_reg_lst_mem_lim st' = 65536"
    "H5FL_arr_glb_mem_lim st' = 0" "H5FL_arr_lst_mem_lim st' = 4294967295"
    by (simp_all add: cap_stored_def UINT_MAX_def)
  with e show ?thesis by (simp del: H5FL_state.simps)
qed


text \<open>
  Lock operations succeed in a state where the calling thread has its record and the
  mutexes concerned are initialised and not held.
\<close>

definition dm_free :: "H5TS_dlftt_mutex_t \<Rightarrow> bool" where
  "dm_free m = (mtx_valid (dm_mtx m) \<and> mtx_owner (dm_mtx m) = None)"

definition thr_ready :: "H5TS_thread_t \<Rightarrow> bool" where
  "thr_ready e = (thr_tls e \<noteq> None \<and> key_get_ok e)"

definition reg_heads_free :: "H5FL_state \<Rightarrow> bool" where
  "reg_heads_free st =
     (thr_ready (fl_thread st)
      \<and> list_all (\<lambda>h. dm_free (rh_mutex h)) (rg_first (H5FL_reg_gc_head st)))"

definition reg_locks_free :: "H5FL_state \<Rightarrow> bool" where
  "reg_locks_free st = (reg_heads_free st \<and> dm_free (rg_mutex (H5FL_reg_gc_head st)))"

lemma dlftt_acquire_release_free:
  assumes "thr_ready e" and "dm_free m"
  shows "\<exists>m1. H5TS_dlftt_mutex_acquire e m = (SUCCEED, e, m1)
           \<and> (\<exists>m2. H5TS_dlftt_mutex_release e m1 = (SUCCEED, m2) \<and> dm_free m2)"
proof -
  from assms(1) obtain node where n: "thr_tls e = Some node" and k: "key_get_ok e"
    by (auto simp: thr_ready_def)
  then have g: "H5TS__get_dlftt e = (SUCCEED, ti_dlftt node, e)"
    by (simp add: H5TS__get_dlftt_def H5TS__tinfo_get_def)
  show ?thesis
  proof (cases "ti_dlftt node = 0")
    case True
    with g assms(2) show ?thesis
      by (simp add: H5TS_dlftt_mutex_acquire_def H5TS_dlftt_mutex_release_def dm_free_def
            H5TS_mutex_lock_def pthread_mutex_lock_def H5TS_mutex_unlock_def
            pthread_mutex_unlock_def Let_def)
  next
    case False
    with g assms(2) show ?thesis
      by (simp add: H5TS_dlftt_mutex_acquire_def H5TS_dlftt_mutex_release_def dm_free_def)
  qed
qed

lemma fl_acquire_release_free:
  assumes "thr_ready (fl_thread st)" and "dm_free m"
  shows "\<exists>m1. fl_acquire m st = (SUCCEED, m1, st)
           \<and> (\<forall>st'. fl_thread st' = fl_thread st \<longrightarrow>
                 (\<exists>m2. fl_release m1 st' = (SUCCEED, m2) \<and> dm_free m2))"
  using dlftt_acquire_release_free [OF assms]
  by (auto simp: fl_acquire_def fl_release_def)

text \<open>What H5FL__reg_gc_list does to a head whose mutex is free.\<close>

lemma reg_gc_list_free:
  assumes i: "i < length (rg_first (H5FL_reg_gc_head st))"
    and t: "thr_ready (fl_thread st)"
    and f: "dm_free (rh_mutex (rg_first (H5FL_reg_gc_head st) ! i))"
  shows "\<exists>m2. dm_free m2 \<and> H5FL__reg_gc_list i st =
     (SUCCEED,
      add_reg_mem_freed
        (- (ucast (rh_onlist (rg_first (H5FL_reg_gc_head st) ! i))
             * rh_size (rg_first (H5FL_reg_gc_head st) ! i)))
        (set_reg_head i
           ((rg_first (H5FL_reg_gc_head st) ! i)
              \<lparr>rh_allocated := rh_allocated (rg_first (H5FL_reg_gc_head st) ! i)
                                 - rh_onlist (rg_first (H5FL_reg_gc_head st) ! i),
               rh_list := [], rh_onlist := 0, rh_mutex := m2\<rparr>)
           (fl_log (EV_REG_GC_LIST i # map EV_MM_FREE (rh_list (rg_first (H5FL_reg_gc_head st) ! i)))
              st)))"
proof -
  let ?h = "rg_first (H5FL_reg_gc_head st) ! i"
  let ?st = "fl_log [EV_REG_GC_LIST i] st"
  have t': "thr_ready (fl_thread ?st)" using t by (simp add: fl_log_def)
  have h': "rg_first (H5FL_reg_gc_head ?st) ! i = ?h" by (simp add: fl_log_def)
  from fl_acquire_release_free [OF t' f] obtain m1 where
    a: "fl_acquire (rh_mutex ?h) ?st = (SUCCEED, m1, ?st)" and
    r: "\<forall>st'. fl_thread st' = fl_thread ?st \<longrightarrow> (\<exists>m2. fl_release m1 st' = (SUCCEED, m2) \<and> dm_free m2)"
    by blast
  let ?st2 = "fl_log (map EV_MM_FREE (rh_list ?h)) ?st"
  from r [rule_format, of ?st2] obtain m2 where
    rl: "fl_release m1 ?st2 = (SUCCEED, m2)" and m2: "dm_free m2"
    by (auto simp: fl_log_def)
  have l: "?st2 = fl_log (EV_REG_GC_LIST i # map EV_MM_FREE (rh_list ?h)) st"
    by (simp add: fl_log_def)
  have il: "i < length (rg_first (H5FL_reg_gc_head st))" by (rule i)
  show ?thesis
    apply (rule exI [of _ m2])
    apply (rule conjI [OF m2])
    apply (subst H5FL__reg_gc_list_def)
    apply (simp only: il not_True_eq_False if_False Let_def h' a rl l [symmetric] prod.case herr_t.case
             simp_thms)
    apply (simp add: l)
    done
qed

lemma reg_gc_list_free_props:
  assumes i: "i < length (rg_first (H5FL_reg_gc_head st))" and f: "reg_heads_free st"
  shows "\<exists>st'. H5FL__reg_gc_list i st = (SUCCEED, st') \<and> reg_heads_free st'
           \<and> length (rg_first (H5FL_reg_gc_head st')) = length (rg_first (H5FL_reg_gc_head st))
           \<and> rg_mutex (H5FL_reg_gc_head st') = rg_mutex (H5FL_reg_gc_head st)
           \<and> rg_init (H5FL_reg_gc_head st') = rg_init (H5FL_reg_gc_head st)
           \<and> rg_mem_freed (H5FL_reg_gc_head st') =
               rg_mem_freed (H5FL_reg_gc_head st)
                 - ucast (rh_onlist (rg_first (H5FL_reg_gc_head st) ! i))
                     * rh_size (rg_first (H5FL_reg_gc_head st) ! i)
           \<and> H5FL_reg_glb_mem_lim st' = H5FL_reg_glb_mem_lim st
           \<and> fl_thread st' = fl_thread st
           \<and> fl_trace st' = fl_trace st @ EV_REG_GC_LIST i
                 # map EV_MM_FREE (rh_list (rg_first (H5FL_reg_gc_head st) ! i))"
proof -
  from f have t: "thr_ready (fl_thread st)"
    and a: "list_all (\<lambda>h. dm_free (rh_mutex h)) (rg_first (H5FL_reg_gc_head st))"
    by (simp_all add: reg_heads_free_def)
  from a i have fi: "dm_free (rh_mutex (rg_first (H5FL_reg_gc_head st) ! i))"
    by (simp add: list_all_length)
  from reg_gc_list_free [OF i t fi] obtain m2 st' where
    m2: "dm_free m2" and e: "H5FL__reg_gc_list i st = (SUCCEED, st')" and
    s: "st' = add_reg_mem_freed
        (- (ucast (rh_onlist (rg_first (H5FL_reg_gc_head st) ! i))
             * rh_size (rg_first (H5FL_reg_gc_head st) ! i)))
        (set_reg_head i
           ((rg_first (H5FL_reg_gc_head st) ! i)
              \<lparr>rh_allocated := rh_allocated (rg_first (H5FL_reg_gc_head st) ! i)
                                 - rh_onlist (rg_first (H5FL_reg_gc_head st) ! i),
               rh_list := [], rh_onlist := 0, rh_mutex := m2\<rparr>)
           (fl_log (EV_REG_GC_LIST i # map EV_MM_FREE (rh_list (rg_first (H5FL_reg_gc_head st) ! i)))
              st))"
    by blast
  have hf: "reg_heads_free st'"
    using t a m2 i unfolding s
    by (auto simp: reg_heads_free_def add_reg_mem_freed_def set_reg_head_def fl_log_def
          list_all_length nth_list_update)
  show ?thesis
    apply (rule exI [of _ st'])
    apply (intro conjI e hf)
    apply (simp_all add: s add_reg_mem_freed_def set_reg_head_def fl_log_def)
    done
qed

lemma reg_gc_walk_free:
  assumes "reg_heads_free st" and "\<forall>i\<in>set is. i < length (rg_first (H5FL_reg_gc_head st))"
  shows "\<exists>st'. fl_walk H5FL__reg_gc_list is st = (SUCCEED, st') \<and> reg_heads_free st'
           \<and> rg_mutex (H5FL_reg_gc_head st') = rg_mutex (H5FL_reg_gc_head st)
           \<and> fl_thread st' = fl_thread st"
  using assms
proof (induction "is" arbitrary: st)
  case Nil
  then show ?case by simp
next
  case (Cons i "is")
  from Cons.prems have i: "i < length (rg_first (H5FL_reg_gc_head st))" by simp
  from reg_gc_list_free_props [OF i Cons.prems(1)] obtain st1 where
    s: "H5FL__reg_gc_list i st = (SUCCEED, st1)" and f1: "reg_heads_free st1"
    and l1: "length (rg_first (H5FL_reg_gc_head st1)) = length (rg_first (H5FL_reg_gc_head st))"
    and m1: "rg_mutex (H5FL_reg_gc_head st1) = rg_mutex (H5FL_reg_gc_head st)"
    and t1: "fl_thread st1 = fl_thread st"
    by blast
  from Cons.prems(2) l1 have "\<forall>i\<in>set is. i < length (rg_first (H5FL_reg_gc_head st1))" by simp
  from Cons.IH [OF f1 this] s m1 t1 show ?case by simp
qed

lemma reg_gc_free:
  assumes "reg_locks_free st"
  shows "fst (H5FL__reg_gc st) = SUCCEED"
proof -
  let ?st = "fl_log [EV_REG_GC] st"
  from assms have hf: "reg_heads_free ?st" and gf: "dm_free (rg_mutex (H5FL_reg_gc_head ?st))"
    by (simp_all add: reg_locks_free_def reg_heads_free_def fl_log_def)
  then have t: "thr_ready (fl_thread ?st)" by (simp add: reg_heads_free_def)
  show ?thesis
  proof (cases "rg_init (H5FL_reg_gc_head ?st)")
    case False
    then show ?thesis by (simp add: H5FL__reg_gc_def Let_def)
  next
    case True
    from fl_acquire_release_free [OF t gf] obtain m1 where
      a: "fl_acquire (rg_mutex (H5FL_reg_gc_head ?st)) ?st = (SUCCEED, m1, ?st)" and
      r: "\<forall>st'. fl_thread st' = fl_thread ?st \<longrightarrow> (\<exists>m2. fl_release m1 st' = (SUCCEED, m2) \<and> dm_free m2)"
      by blast
    let ?s1 = "set_reg_gc_mutex m1 ?st"
    have hf1: "reg_heads_free ?s1" using hf by (simp add: reg_heads_free_def set_reg_gc_mutex_def)
    have ix: "\<forall>i\<in>set [0 ..< length (rg_first (H5FL_reg_gc_head ?st))].
                i < length (rg_first (H5FL_reg_gc_head ?s1))"
      by (simp add: set_reg_gc_mutex_def)
    from reg_gc_walk_free [OF hf1 ix] obtain st2 where
      w: "fl_walk H5FL__reg_gc_list [0 ..< length (rg_first (H5FL_reg_gc_head ?st))] ?s1
            = (SUCCEED, st2)"
      and m: "rg_mutex (H5FL_reg_gc_head st2) = m1"
      and th: "fl_thread st2 = fl_thread ?st"
      by (auto simp: set_reg_gc_mutex_def)
    obtain r3 m2 where rl: "fl_release m1 st2 = (r3, m2)" by force
    from r [rule_format, OF th] rl have "r3 = SUCCEED" by auto
    with True a w m rl show ?thesis
      by (simp add: H5FL__reg_gc_def Let_def hgoto_error_def)
  qed
qed

lemma reg_free_link_free:
  assumes i: "i < length (rg_first (H5FL_reg_gc_head st))" and f: "reg_heads_free st"
  shows "\<exists>m2. dm_free m2 \<and> H5FL_reg_free_link i obj st =
     (SUCCEED, rh_onlist (rg_first (H5FL_reg_gc_head st) ! i) + 1,
      add_reg_mem_freed (rh_size (rg_first (H5FL_reg_gc_head st) ! i))
        (set_reg_head i
           ((rg_first (H5FL_reg_gc_head st) ! i)
              \<lparr>rh_list := obj # rh_list (rg_first (H5FL_reg_gc_head st) ! i),
               rh_onlist := rh_onlist (rg_first (H5FL_reg_gc_head st) ! i) + 1,
               rh_mutex := m2\<rparr>) st))"
proof -
  let ?h = "rg_first (H5FL_reg_gc_head st) ! i"
  from f have t: "thr_ready (fl_thread st)"
    and a: "list_all (\<lambda>h. dm_free (rh_mutex h)) (rg_first (H5FL_reg_gc_head st))"
    by (simp_all add: reg_heads_free_def)
  from a i have fi: "dm_free (rh_mutex ?h)" by (simp add: list_all_length)
  from fl_acquire_release_free [OF t fi] obtain m1 where
    a: "fl_acquire (rh_mutex ?h) st = (SUCCEED, m1, st)" and
    r: "\<forall>st'. fl_thread st' = fl_thread st \<longrightarrow> (\<exists>m2. fl_release m1 st' = (SUCCEED, m2) \<and> dm_free m2)"
    by blast
  from r [rule_format, of st] obtain m2 where
    rl: "fl_release m1 st = (SUCCEED, m2)" and m2: "dm_free m2" by auto
  show ?thesis
    apply (rule exI [of _ m2])
    apply (rule conjI [OF m2])
    apply (subst H5FL_reg_free_link_def)
    apply (simp only: i not_True_eq_False if_False Let_def a rl prod.case herr_t.case simp_thms)
    apply simp
    done
qed

text \<open>
  Claim C7, as amended. A block is freed to an initialised regular head whose lock
  operations succeed. The block is linked in front of the head's free list, the
  count of blocks on the list goes up by one and the class's gauge of freed memory
  by the block size, with no garbage collection so far. Then: H5FL__reg_gc_list on
  that head is the first thing called exactly when the memory on the list (blocks on
  the list times block size) exceeds the per-list cap; and, whether or not that pass
  ran, H5FL__reg_gc is called exactly when the gauge as it stands after that step
  exceeds the global cap. So the global check is made in both cases.
\<close>

theorem reg_free_checks_both_limits:
  assumes "i < length (rg_first (H5FL_reg_gc_head st))" and "reg_locks_free st"
  shows "\<exists>st1. H5FL_reg_free_link i obj st
                 = (SUCCEED, rh_onlist (rg_first (H5FL_reg_gc_head st) ! i) + 1, st1)
      \<and> rh_list (rg_first (H5FL_reg_gc_head st1) ! i)
          = obj # rh_list (rg_first (H5FL_reg_gc_head st) ! i)
      \<and> rh_onlist (rg_first (H5FL_reg_gc_head st1) ! i)
          = rh_onlist (rg_first (H5FL_reg_gc_head st) ! i) + 1
      \<and> rg_mem_freed (H5FL_reg_gc_head st1)
          = rg_mem_freed (H5FL_reg_gc_head st) + rh_size (rg_first (H5FL_reg_gc_head st) ! i)
      \<and> fl_trace st1 = fl_trace st
      \<and> fst (H5FL_reg_free i obj st) = SUCCEED
      \<and> (take 1 (new_events st (snd (H5FL_reg_free i obj st))) = [EV_REG_GC_LIST i])
          = (ucast (rh_onlist (rg_first (H5FL_reg_gc_head st) ! i) + 1)
               * rh_size (rg_first (H5FL_reg_gc_head st) ! i) > H5FL_reg_lst_mem_lim st)
      \<and> (EV_REG_GC \<in> set (new_events st (snd (H5FL_reg_free i obj st))))
          = ((if ucast (rh_onlist (rg_first (H5FL_reg_gc_head st) ! i) + 1)
                   * rh_size (rg_first (H5FL_reg_gc_head st) ! i) > H5FL_reg_lst_mem_lim st
              then rg_mem_freed (H5FL_reg_gc_head st1)
                     - ucast (rh_onlist (rg_first (H5FL_reg_gc_head st) ! i) + 1)
                         * rh_size (rg_first (H5FL_reg_gc_head st) ! i)
              else rg_mem_freed (H5FL_reg_gc_head st1)) > H5FL_reg_glb_mem_lim st)"
proof -
  let ?h = "rg_first (H5FL_reg_gc_head st) ! i"
  let ?n = "rh_onlist ?h + 1"
  let ?c = "ucast ?n * rh_size ?h > H5FL_reg_lst_mem_lim st"
  from assms(2) have hf: "reg_heads_free st" and gf: "dm_free (rg_mutex (H5FL_reg_gc_head st))"
    by (simp_all add: reg_locks_free_def)
  from reg_free_link_free [OF assms(1) hf, of obj] obtain m2 where
    m2: "dm_free m2" and
    lk: "H5FL_reg_free_link i obj st = (SUCCEED, ?n,
           add_reg_mem_freed (rh_size ?h)
             (set_reg_head i (?h\<lparr>rh_list := obj # rh_list ?h, rh_onlist := ?n, rh_mutex := m2\<rparr>) st))"
    (is "_ = (_, _, ?st1)")
    by blast
  have l1: "length (rg_first (H5FL_reg_gc_head ?st1)) = length (rg_first (H5FL_reg_gc_head st))"
    by (simp add: add_reg_mem_freed_def set_reg_head_def)
  have i1: "i < length (rg_first (H5FL_reg_gc_head ?st1))" using assms(1) l1 by simp
  have h1: "rg_first (H5FL_reg_gc_head ?st1) ! i
              = ?h\<lparr>rh_list := obj # rh_list ?h, rh_onlist := ?n, rh_mutex := m2\<rparr>"
    using assms(1) by (simp add: add_reg_mem_freed_def set_reg_head_def)
  have hf1: "reg_heads_free ?st1"
    using hf m2 assms(1)
    by (auto simp: reg_heads_free_def add_reg_mem_freed_def set_reg_head_def
          list_all_length nth_list_update)
  have gf1: "dm_free (rg_mutex (H5FL_reg_gc_head ?st1))"
    using gf by (simp add: add_reg_mem_freed_def set_reg_head_def)
  have lim1: "H5FL_reg_lst_mem_lim ?st1 = H5FL_reg_lst_mem_lim st"
    "H5FL_reg_glb_mem_lim ?st1 = H5FL_reg_glb_mem_lim st"
    by (simp_all add: add_reg_mem_freed_def set_reg_head_def)
  have mf1: "rg_mem_freed (H5FL_reg_gc_head ?st1) = rg_mem_freed (H5FL_reg_gc_head st) + rh_size ?h"
    by (simp add: add_reg_mem_freed_def set_reg_head_def)
  have tr1: "fl_trace ?st1 = fl_trace st"
    by (simp add: add_reg_mem_freed_def set_reg_head_def)
  \<comment> \<open>the per-list check\<close>
  obtain st2 where
    s2: "(if ?c then H5FL__reg_gc_list i ?st1 else (SUCCEED, ?st1)) = (SUCCEED, st2)"
    and lf2: "reg_locks_free st2"
    and mf2: "rg_mem_freed (H5FL_reg_gc_head st2)
               = (if ?c then rg_mem_freed (H5FL_reg_gc_head ?st1) - ucast ?n * rh_size ?h
                  else rg_mem_freed (H5FL_reg_gc_head ?st1))"
    and lim2: "H5FL_reg_glb_mem_lim st2 = H5FL_reg_glb_mem_lim st"
    and tr2: "fl_trace st2 = fl_trace st @ (if ?c then EV_REG_GC_LIST i # map EV_MM_FREE (obj # rh_list ?h) else [])"
  proof (cases ?c)
    case False
    with hf1 gf1 lim1 tr1 that [of ?st1] show ?thesis by (simp add: reg_locks_free_def)
  next
    case True
    from reg_gc_list_free_props [OF i1 hf1] obtain st2 where
      "H5FL__reg_gc_list i ?st1 = (SUCCEED, st2)" "reg_heads_free st2"
      "rg_mutex (H5FL_reg_gc_head st2) = rg_mutex (H5FL_reg_gc_head ?st1)"
      "rg_mem_freed (H5FL_reg_gc_head st2) =
         rg_mem_freed (H5FL_reg_gc_head ?st1)
           - ucast (rh_onlist (rg_first (H5FL_reg_gc_head ?st1) ! i))
               * rh_size (rg_first (H5FL_reg_gc_head ?st1) ! i)"
      "H5FL_reg_glb_mem_lim st2 = H5FL_reg_glb_mem_lim ?st1"
      "fl_trace st2 = fl_trace ?st1 @ EV_REG_GC_LIST i
                 # map EV_MM_FREE (rh_list (rg_first (H5FL_reg_gc_head ?st1) ! i))"
      by blast
    with True gf1 lim1 tr1 h1 that [of st2] show ?thesis
      by (simp add: reg_locks_free_def)
  qed
  let ?g = "rg_mem_freed (H5FL_reg_gc_head st2) > H5FL_reg_glb_mem_lim st2"
  obtain r3 st3 where g3: "H5FL__reg_gc st2 = (r3, st3)" by force
  from reg_gc_free [OF lf2] g3 have r3: "r3 = SUCCEED" by simp
  from gc_ext_entry_trace [OF gc_ext_reg_gc_entry, of st2] g3 obtain evs where
    tr3: "fl_trace st3 = fl_trace st2 @ EV_REG_GC # evs" by auto
  have lim: "H5FL_reg_free_limits i ?n ?st1 = (if ?g then (SUCCEED, st3) else (SUCCEED, st2))"
    using s2 g3 r3 h1 lim1
    by (simp add: H5FL_reg_free_limits_def hgoto_error_def)
  have fr: "H5FL_reg_free i obj st = (if ?g then (SUCCEED, st3) else (SUCCEED, st2))"
    using lk lim by (simp add: H5FL_reg_free_def)
  have ne: "new_events st (snd (H5FL_reg_free i obj st))
              = (if ?c then EV_REG_GC_LIST i # map EV_MM_FREE (obj # rh_list ?h) else [])
                @ (if ?g then EV_REG_GC # evs else [])"
    using fr tr2 tr3 by (simp add: new_events_def)
  show ?thesis
    apply (rule exI [of _ ?st1])
    apply (intro conjI lk mf1 tr1)
    subgoal using h1 by simp
    subgoal using h1 by simp
    subgoal using fr by simp
    subgoal unfolding ne by (cases ?c; cases ?g; simp)
    subgoal unfolding ne mf2 [symmetric] lim2 [symmetric] by (cases ?c; cases ?g; auto)
    done
qed

text \<open>
  Two regular heads of block size 8, the second with one block (address 100) on its
  free list, and both caps set to 4 bytes. The calling thread has its record.
\<close>

definition fl_state_two_heads :: H5FL_state where
  "fl_state_two_heads =
     fl_state_init
       \<lparr>fl_thread := (new_thread 1)\<lparr>thr_tls := Some \<lparr>ti_id = 1, ti_dlftt = 0\<rparr>\<rparr>,
        H5FL_reg_glb_mem_lim := 4, H5FL_reg_lst_mem_lim := 4,
        H5FL_reg_gc_head :=
          \<lparr>rg_init = True, rg_mutex = H5TS_dlftt_mutex_init, rg_mem_freed = 8,
           rg_first =
             [\<lparr>rh_mutex = H5TS_dlftt_mutex_init, rh_allocated = 1, rh_onlist = 0, rh_size = 8,
               rh_list = []\<rparr>,
              \<lparr>rh_mutex = H5TS_dlftt_mutex_init, rh_allocated = 1, rh_onlist = 1, rh_size = 8,
               rh_list = [100]\<rparr>]\<rparr>\<rparr>"

lemma two_heads_locks_free: "reg_locks_free fl_state_two_heads"
  by (simp add: reg_locks_free_def reg_heads_free_def thr_ready_def dm_free_def
        fl_state_two_heads_def fl_state_init_def new_thread_def H5TS_dlftt_mutex_init_def)

lemma two_heads_length: "0 < length (rg_first (H5FL_reg_gc_head fl_state_two_heads))"
  by (simp add: fl_state_two_heads_def fl_state_init_def)

lemma upt_2: "[0 ..< 2] = [0, 1]"
  by (simp add: upt_rec)

text \<open>
  The claim as stated fails: freeing one block to the first head exceeds the per-list
  cap, so that head is collected, and the global check is made all the same: the
  gauge still exceeds the global cap, and the class-wide pass runs in the same call.
\<close>

theorem reg_free_both_passes_counterexample:
  "fl_trace (snd (H5FL_reg_free 0 200 fl_state_two_heads))
     = [EV_REG_GC_LIST 0, EV_MM_FREE 200, EV_REG_GC, EV_REG_GC_LIST 0, EV_REG_GC_LIST 1,
        EV_MM_FREE 100]"
  by (simp add: fl_state_two_heads_def fl_eval_defs upt_2)

theorem reg_free_checks_both_limits_witness:
  "reg_locks_free fl_state_two_heads
   \<and> fst (H5FL_reg_free 0 200 fl_state_two_heads) = SUCCEED
   \<and> take 1 (new_events fl_state_two_heads (snd (H5FL_reg_free 0 200 fl_state_two_heads)))
       = [EV_REG_GC_LIST 0]
   \<and> EV_REG_GC \<in> set (new_events fl_state_two_heads (snd (H5FL_reg_free 0 200 fl_state_two_heads)))"
proof -
  have c: "ucast (rh_onlist (rg_first (H5FL_reg_gc_head fl_state_two_heads) ! 0) + 1)
             * rh_size (rg_first (H5FL_reg_gc_head fl_state_two_heads) ! 0)
           > H5FL_reg_lst_mem_lim fl_state_two_heads"
    by (simp add: fl_state_two_heads_def fl_state_init_def)
  have g: "rg_mem_freed (H5FL_reg_gc_head fl_state_two_heads)
             + rh_size (rg_first (H5FL_reg_gc_head fl_state_two_heads) ! 0)
             - ucast (rh_onlist (rg_first (H5FL_reg_gc_head fl_state_two_heads) ! 0) + 1)
                 * rh_size (rg_first (H5FL_reg_gc_head fl_state_two_heads) ! 0)
           > H5FL_reg_glb_mem_lim fl_state_two_heads"
    by (simp add: fl_state_two_heads_def fl_state_init_def)
  from reg_free_checks_both_limits [OF two_heads_length two_heads_locks_free, of 200] c g
    two_heads_locks_free
  show ?thesis by auto
qed


section \<open>The POSIX file layer (H5FDposix_common.c): addresses and overflow checks\<close>

text \<open>
  \<open>haddr_t\<close>, \<open>hsize_t\<close> and \<open>size_t\<close> are unsigned 64-bit integers and \<open>HDoff_t\<close> is the
  signed 64-bit file offset. Addresses and sizes are natural numbers here; the overflow
  macros are written with the wrap-around modulo \<open>2 ^ 64\<close> and the signed reading
  that the C expressions have. Every address that passes them is below \<open>2 ^ 63\<close>.
\<close>

type_synonym haddr_t = nat
type_synonym byte = "8 word"

definition HADDR_UNDEF :: haddr_t where
  "HADDR_UNDEF = 2 ^ 64 - 1"

definition H5_POSIX_MAXADDR :: haddr_t where
  "H5_POSIX_MAXADDR = 2 ^ 63 - 1"

definition as_HDoff_t :: "nat \<Rightarrow> int" where
  "as_HDoff_t x = (if x mod 2 ^ 64 < 2 ^ 63 then int (x mod 2 ^ 64) else int (x mod 2 ^ 64) - 2 ^ 64)"

text \<open>Unsigned 64-bit addition, subtraction and multiplication.\<close>

definition uadd64 :: "nat \<Rightarrow> nat \<Rightarrow> nat" where
  "uadd64 a b = (a + b) mod 2 ^ 64"

definition usub64 :: "nat \<Rightarrow> nat \<Rightarrow> nat" where
  "usub64 a b = (a + 2 ^ 64 - b mod 2 ^ 64) mod 2 ^ 64"

definition umul64 :: "nat \<Rightarrow> nat \<Rightarrow> nat" where
  "umul64 a b = (a * b) mod 2 ^ 64"

definition H5FD_POSIX_ADDR_OVERFLOW :: "haddr_t \<Rightarrow> bool" where
  "H5FD_POSIX_ADDR_OVERFLOW a = (HADDR_UNDEF = a \<or> a > H5_POSIX_MAXADDR)"

definition H5FD_POSIX_SIZE_OVERFLOW :: "nat \<Rightarrow> bool" where
  "H5FD_POSIX_SIZE_OVERFLOW z = (z > H5_POSIX_MAXADDR)"

definition H5FD_POSIX_REGION_OVERFLOW :: "haddr_t \<Rightarrow> nat \<Rightarrow> bool" where
  "H5FD_POSIX_REGION_OVERFLOW a z =
     (H5FD_POSIX_ADDR_OVERFLOW a \<or> H5FD_POSIX_SIZE_OVERFLOW z
      \<or> HADDR_UNDEF = (a + z) mod 2 ^ 64
      \<or> as_HDoff_t (a + z) < as_HDoff_t a)"

record H5FD_posix_common_t =
  pc_eoa :: haddr_t
  pc_eof :: haddr_t

definition H5FD__posix_common_get_eof :: "H5FD_posix_common_t \<Rightarrow> herr_t \<times> haddr_t" where
  "H5FD__posix_common_get_eof file = (SUCCEED, pc_eof file)"

definition H5FD__posix_common_set_eof ::
  "H5FD_posix_common_t \<Rightarrow> haddr_t \<Rightarrow> herr_t \<times> H5FD_posix_common_t" where
  "H5FD__posix_common_set_eof file addr =
     (if H5FD_POSIX_ADDR_OVERFLOW addr then (FAIL, file) else (SUCCEED, file\<lparr>pc_eof := addr\<rparr>))"

section \<open>The dirty-region index of the core driver\<close>

text \<open>
  Modelled from the spec: the skip list (H5SL.c is not among the sources). Section
  4.10 describes an ordered structure keyed on the region start with insert, remove
  and search, and \<open>less(key)\<close>, which returns the greatest entry strictly less than the
  key. The list holds the regions in key order, each as the pair of its start (the key)
  and its end. Inserting a key that is present fails, as does an insertion for which
  no memory is left (\<open>ok\<close> false); removing a key that is absent returns nothing.
\<close>

type_synonym H5FD_core_region_t = "haddr_t \<times> haddr_t"
type_synonym H5SL_t = "H5FD_core_region_t list"

definition H5SL_less :: "H5SL_t \<Rightarrow> haddr_t \<Rightarrow> H5FD_core_region_t option" where
  "H5SL_less sl key =
     (case filter (\<lambda>r. fst r < key) sl of [] \<Rightarrow> None | x # xs \<Rightarrow> Some (last (x # xs)))"

definition H5SL_search :: "H5SL_t \<Rightarrow> haddr_t \<Rightarrow> H5FD_core_region_t option" where
  "H5SL_search sl key = find (\<lambda>r. fst r = key) sl"

definition H5SL_remove :: "H5SL_t \<Rightarrow> haddr_t \<Rightarrow> (H5FD_core_region_t \<times> H5SL_t) option" where
  "H5SL_remove sl key =
     (case find (\<lambda>r. fst r = key) sl of
        None \<Rightarrow> None
      | Some r \<Rightarrow> Some (r, filter (\<lambda>r. fst r \<noteq> key) sl))"

definition H5SL_insert :: "bool \<Rightarrow> H5SL_t \<Rightarrow> H5FD_core_region_t \<Rightarrow> H5SL_t option" where
  "H5SL_insert ok sl item =
     (if \<not> ok \<or> find (\<lambda>r. fst r = fst item) sl \<noteq> None then None
      else Some (filter (\<lambda>r. fst r < fst item) sl @ item # filter (\<lambda>r. fst r > fst item) sl))"

text \<open>The assignment \<open>item->end = e\<close> to the region stored under a key.\<close>

definition region_set_end :: "H5SL_t \<Rightarrow> haddr_t \<Rightarrow> haddr_t \<Rightarrow> H5SL_t" where
  "region_set_end sl key e = map (\<lambda>r. if fst r = key then (fst r, e) else r) sl"

section \<open>The core (in-memory) driver (H5FDcore.c)\<close>

record H5FD_core_t =
  pos_com :: H5FD_posix_common_t
  mem :: "byte list"
  increment :: nat
  backing_store :: bool
  file_opened :: bool
  write_tracking :: bool
  bstore_page_size :: nat
  dirty :: bool
  dirty_list :: "H5SL_t option"

text \<open>
  What the environment decides for one call of H5FD__core_write: whether the
  reallocation of the buffer (H5MM_realloc or the image callback) returns memory, the
  indeterminate contents of the bytes it adds, whether the free list gives a region
  record, and whether the skip list can insert it.
\<close>

record core_write_env =
  realloc_ok :: bool
  realloc_junk :: "byte list"
  region_calloc_ok :: bool
  sl_insert_ok :: bool

text \<open>
  realloc to \<open>n\<close> bytes keeps the old contents up to the smaller of the two sizes;
  memset and memcpy act on the bytes inside the buffer.
\<close>

definition realloc_bytes :: "byte list \<Rightarrow> nat \<Rightarrow> byte list \<Rightarrow> byte list" where
  "realloc_bytes old n junk = take n (old @ take (n - length old) (junk @ replicate n 0))"

definition memset_zero :: "byte list \<Rightarrow> nat \<Rightarrow> nat \<Rightarrow> byte list" where
  "memset_zero buf off n = take off buf @ replicate n 0 @ drop (off + n) buf"

definition memcpy_at :: "byte list \<Rightarrow> nat \<Rightarrow> byte list \<Rightarrow> byte list" where
  "memcpy_at buf off src = take off buf @ src @ drop (off + length src) buf"

text \<open>
  The loop of H5FD__core_add_dirty_region that removes the regions the new one
  shadows. \<open>a_item\<close> is the region under inspection. Removing a key that is not in the
  list returns NULL, and freeing NULL aborts the program.
\<close>

function remove_shadowed ::
  "H5SL_t \<Rightarrow> H5FD_core_region_t option \<Rightarrow> haddr_t \<Rightarrow> herr_t \<times> H5SL_t" where
  "remove_shadowed sl a_item start =
     (case a_item of
        None \<Rightarrow> (SUCCEED, sl)
      | Some a \<Rightarrow>
          if fst a > start
          then (let key = fst a - 1;
                    less = H5SL_less sl key
                in case H5SL_remove sl (fst a) of
                     None \<Rightarrow> (NORETURN, sl)
                   | Some (removed, sl') \<Rightarrow>
                       (case less of
                          None \<Rightarrow> (SUCCEED, sl')
                        | Some l \<Rightarrow> remove_shadowed sl' (Some l) start))
          else (SUCCEED, sl))"
  by pat_completeness auto
termination
proof (relation "measure (\<lambda>(sl, a, s). length sl)")
  show "wf (measure (\<lambda>(sl, a, s). length sl))" by simp
next
  fix sl :: H5SL_t and a_item :: "H5FD_core_region_t option" and start a key less x2 removed sl' l
  assume "H5SL_remove sl (fst a) = Some x2" and "(removed, sl') = x2"
  then have f: "find (\<lambda>r. fst r = fst a) sl \<noteq> None" and s: "sl' = filter (\<lambda>r. fst r \<noteq> fst a) sl"
    by (auto simp: H5SL_remove_def split: option.splits)
  from f obtain r where "r \<in> set sl" "fst r = fst a"
    by (auto simp: find_None_iff)
  then have "length (filter (\<lambda>r. fst r \<noteq> fst a) sl) < length sl"
    by (intro length_filter_less [of r]) auto
  with s show "((sl', Some l, start), (sl, a_item, start)) \<in> measure (\<lambda>(sl, a, s). length sl)"
    by simp
qed

text \<open>
  H5FD__core_add_dirty_region, in the order of the code: the adjustment of the two
  bounds to page boundaries, the choice of the new region's bounds from the regions
  before and after the insertion point, the removal of the shadowed regions, and the
  insertion or update. The two assertions of the function (a dirty list exists,
  \<open>start <= end\<close>) abort when they fail, and so do a page size of zero (a division by
  zero) and a NULL region record, which the code writes to unchecked. The arithmetic
  is unsigned 64-bit arithmetic.
\<close>

definition region_page_bounds :: "nat \<Rightarrow> haddr_t \<Rightarrow> haddr_t \<Rightarrow> haddr_t \<Rightarrow> haddr_t \<times> haddr_t" where
  "region_page_bounds ps eof start0 end0 =
     (let start1 = (if start0 mod ps \<noteq> 0 then (start0 div ps) * ps else start0);
          end1 = (if end0 mod ps \<noteq> ps - 1
                  then (let e = usub64 (umul64 (uadd64 (end0 div ps) 1) ps) 1
                        in if e > eof then usub64 eof 1 else e)
                  else end0)
      in (start1, end1))"

definition region_new_end :: "H5FD_core_region_t option \<Rightarrow> haddr_t \<Rightarrow> haddr_t \<Rightarrow> haddr_t" where
  "region_new_end a_item start1 end1 =
     (case a_item of
        None \<Rightarrow> end1
      | Some a \<Rightarrow> if start1 < fst a \<and> end1 < snd a then snd a else end1)"

definition region_extend_prev :: "H5FD_core_region_t option \<Rightarrow> haddr_t \<Rightarrow> bool" where
  "region_extend_prev b_item start1 =
     (case b_item of None \<Rightarrow> False | Some b \<Rightarrow> start1 \<le> uadd64 (snd b) 1)"

definition region_store ::
  "core_write_env \<Rightarrow> H5SL_t \<Rightarrow> bool \<Rightarrow> H5FD_core_region_t option \<Rightarrow> haddr_t \<Rightarrow> haddr_t
     \<Rightarrow> herr_t \<times> H5SL_t" where
  "region_store env sl1 create_new_node b_item start2 end2 =
     (if create_new_node
      then (case H5SL_search sl1 start2 of
              None \<Rightarrow>
                if \<not> region_calloc_ok env then (NORETURN, sl1)
                else (case H5SL_insert (sl_insert_ok env) sl1 (start2, end2) of
                        None \<Rightarrow> (FAIL, sl1)
                      | Some sl2 \<Rightarrow> (SUCCEED, sl2))
            | Some item \<Rightarrow>
                (SUCCEED, region_set_end sl1 start2 (if snd item < end2 then end2 else snd item)))
      else (if snd (the b_item) < end2 then (SUCCEED, region_set_end sl1 start2 end2)
            else (SUCCEED, sl1)))"

definition add_dirty_region_list ::
  "core_write_env \<Rightarrow> nat \<Rightarrow> haddr_t \<Rightarrow> H5SL_t \<Rightarrow> haddr_t \<Rightarrow> haddr_t \<Rightarrow> herr_t \<times> H5SL_t" where
  "add_dirty_region_list env ps eof sl start0 end0 =
     (let (start1, end1) = region_page_bounds ps eof start0 end0;
          b_addr = uadd64 start1 1;
          a_addr = uadd64 end1 2;
          b_item = H5SL_less sl b_addr;
          a_item = H5SL_less sl a_addr;
          end2 = region_new_end a_item start1 end1;
          extend_prev = region_extend_prev b_item start1;
          start2 = (if extend_prev then fst (the b_item) else start1);
          create_new_node = (\<not> extend_prev)
      in case remove_shadowed sl a_item start2 of
           (SUCCEED, sl1) \<Rightarrow> region_store env sl1 create_new_node b_item start2 end2
         | (r, sl1) \<Rightarrow> (r, sl1))"

definition H5FD__core_add_dirty_region ::
  "core_write_env \<Rightarrow> H5FD_core_t \<Rightarrow> haddr_t \<Rightarrow> haddr_t \<Rightarrow> herr_t \<times> H5FD_core_t" where
  "H5FD__core_add_dirty_region env file start0 end0 =
     (case dirty_list file of
        None \<Rightarrow> (NORETURN, file)
      | Some sl \<Rightarrow>
          if \<not> start0 \<le> end0 \<or> bstore_page_size file = 0 then (NORETURN, file)
          else (case add_dirty_region_list env (bstore_page_size file) (pc_eof (pos_com file))
                       sl start0 end0 of
                  (r, sl') \<Rightarrow> (r, file\<lparr>dirty_list := Some sl'\<rparr>)))"

text \<open>
  The part of H5FD__core_write that grows the buffer: the new size is the smallest
  multiple of the increment that covers the write. An increment of zero is a division
  by zero.
\<close>

definition core_extend :: "core_write_env \<Rightarrow> H5FD_core_t \<Rightarrow> nat \<Rightarrow> herr_t \<times> H5FD_core_t" where
  "core_extend env file need =
     (if increment file = 0 then (NORETURN, file)
      else
       (let eof = pc_eof (pos_com file);
            new_eof0 = increment file * (need div increment file);
            new_eof = (if need mod increment file \<noteq> 0 then uadd64 new_eof0 (increment file)
                       else new_eof0)
        in if \<not> realloc_ok env then (FAIL, file)
           else (let x = realloc_bytes (mem file) new_eof (realloc_junk env);
                     file1 = file\<lparr>mem := memset_zero x eof (new_eof - eof)\<rparr>
                 in case H5FD__posix_common_set_eof (pos_com file1) new_eof of
                      (SUCCEED, pc) \<Rightarrow> (SUCCEED, file1\<lparr>pos_com := pc\<rparr>)
                    | (r, pc) \<Rightarrow> (r, file1))))"

text \<open>
  H5FD__core_write: the size of the write, \<open>sz\<close>, is the length of \<open>buf\<close>. The
  function grows the buffer when the write ends past the end of the file, then records
  the written range when there is a dirty list, then copies the bytes and sets the
  dirty flag.
\<close>

definition core_write_grow ::
  "core_write_env \<Rightarrow> H5FD_core_t \<Rightarrow> haddr_t \<Rightarrow> nat \<Rightarrow> herr_t \<times> H5FD_core_t" where
  "core_write_grow env file addr sz =
     (if addr + sz > pc_eof (pos_com file) then core_extend env file (addr + sz)
      else (SUCCEED, file))"

definition core_write_track ::
  "core_write_env \<Rightarrow> H5FD_core_t \<Rightarrow> haddr_t \<Rightarrow> nat \<Rightarrow> herr_t \<times> H5FD_core_t" where
  "core_write_track env file addr sz =
     (if dirty_list file \<noteq> None
      then H5FD__core_add_dirty_region env file addr (usub64 (addr + sz) 1)
      else (SUCCEED, file))"

definition H5FD__core_write ::
  "core_write_env \<Rightarrow> H5FD_core_t \<Rightarrow> haddr_t \<Rightarrow> byte list \<Rightarrow> herr_t \<times> H5FD_core_t" where
  "H5FD__core_write env file addr buf =
     (let sz = length buf in
      if H5FD_POSIX_REGION_OVERFLOW addr sz then (FAIL, file)
      else
       (case core_write_grow env file addr sz of
          (SUCCEED, file1) \<Rightarrow>
            (case core_write_track env file1 addr sz of
               (SUCCEED, file2) \<Rightarrow>
                 (SUCCEED, file2\<lparr>mem := memcpy_at (mem file2) addr buf, dirty := True\<rparr>)
             | (r, file2) \<Rightarrow> (r, file2))
        | (r, file1) \<Rightarrow> (r, file1)))"

text \<open>H5FD__core_read: the status and the bytes left in the caller's buffer.\<close>

definition H5FD__core_read :: "H5FD_core_t \<Rightarrow> haddr_t \<Rightarrow> nat \<Rightarrow> herr_t \<times> byte list" where
  "H5FD__core_read file addr sz =
     (if addr = HADDR_UNDEF then (FAIL, [])
      else if H5FD_POSIX_REGION_OVERFLOW addr sz then (FAIL, [])
      else
       (let eof = pc_eof (pos_com file) in
        if addr < eof
        then (let nbytes = min sz (eof - addr)
              in (SUCCEED, take nbytes (drop addr (mem file)) @ replicate (sz - nbytes) 0))
        else (SUCCEED, replicate sz 0)))"

text \<open>
  The byte that the file holds at an address: the buffer's below the end of the file,
  zero from there on.
\<close>

definition core_byte :: "H5FD_core_t \<Rightarrow> haddr_t \<Rightarrow> byte" where
  "core_byte file i = (if i < pc_eof (pos_com file) then mem file ! i else 0)"

text \<open>
  A sequence of calls of H5FD__core_write, each with its environment, address and
  buffer; the caller goes on after a call that fails, and there is no state after a
  call that does not return.
\<close>

fun core_writes ::
  "(core_write_env \<times> haddr_t \<times> byte list) list \<Rightarrow> H5FD_core_t \<Rightarrow> H5FD_core_t option" where
  "core_writes [] file = Some file"
| "core_writes ((env, addr, buf) # ws) file =
     (case H5FD__core_write env file addr buf of
        (NORETURN, file') \<Rightarrow> None
      | (r, file') \<Rightarrow> core_writes ws file')"


text \<open>
  H5FD__core_open, as far as the buffer, the end-of-file marker and the dirty list
  go. The environment gives the flags, the initial file image of the access property
  list (empty for none), and the outcomes of what the function calls: whether the
  name exists (access), the result of H5FD__posix_common_open (None for a failure,
  else the file size that fstat reports and that becomes \<open>eof\<close>), whether the buffer can
  be allocated (image_malloc callback or H5MM_malloc) and what it holds, whether the
  image_memcpy callback succeeds, what H5FD__posix_common_read reads from the backing
  file (None for a failure), and whether the skip list can be created.
\<close>

record H5FD_core_fapl_t =
  fa_increment :: nat
  fa_backing_store :: bool
  fa_write_tracking :: bool
  fa_page_size :: nat

record core_open_env =
  oe_flags_creat :: bool
  oe_flags_rdwr :: bool
  oe_image :: "byte list"
  oe_name_exists :: bool
  oe_posix_open :: "nat option"
  oe_malloc_ok :: bool
  oe_malloc_junk :: "byte list"
  oe_image_memcpy_ok :: bool
  oe_file_read :: "byte list option"
  oe_sl_create_ok :: bool

definition H5FD_CORE_INCREMENT :: nat where
  "H5FD_CORE_INCREMENT = 8192"

text \<open>The file structure after H5MM_calloc.\<close>

definition core_file_zero :: H5FD_core_t where
  "core_file_zero =
     \<lparr>pos_com = \<lparr>pc_eoa = 0, pc_eof = 0\<rparr>, mem = [], increment = 0, backing_store = False,
      file_opened = False, write_tracking = False, bstore_page_size = 0, dirty = False,
      dirty_list = None\<rparr>"

text \<open>The first part of the open: whether and how the backing file is opened.\<close>

definition core_open_backing :: "core_open_env \<Rightarrow> H5FD_core_fapl_t \<Rightarrow> H5FD_core_t option" where
  "core_open_backing env fa =
     (let opened = (case oe_posix_open env of
                      None \<Rightarrow> None
                    | Some st_size \<Rightarrow>
                        Some (core_file_zero\<lparr>pos_com := \<lparr>pc_eoa = 0, pc_eof = st_size\<rparr>,
                                             file_opened := True\<rparr>))
      in if oe_image env \<noteq> [] \<and> \<not> oe_flags_creat env
         then (if oe_name_exists env then None
               else if fa_backing_store fa then opened else Some core_file_zero)
         else if fa_backing_store fa \<or> \<not> oe_flags_creat env then opened
         else Some core_file_zero)"

text \<open>The second part: loading the initial contents when an existing file is opened.\<close>

definition core_open_load :: "core_open_env \<Rightarrow> H5FD_core_t \<Rightarrow> H5FD_core_t option" where
  "core_open_load env file =
     (if \<not> oe_flags_creat env
      then (let sz = (if oe_image env \<noteq> [] then length (oe_image env)
                      else pc_eof (pos_com file))
            in if sz \<noteq> 0
               then (if \<not> oe_malloc_ok env then None
                     else (let buf = take sz (oe_malloc_junk env @ replicate sz 0)
                           in if oe_image env \<noteq> []
                              then (if \<not> oe_image_memcpy_ok env then None
                                    else Some (file\<lparr>mem := memcpy_at buf 0 (oe_image env)\<rparr>))
                              else (case oe_file_read env of
                                      None \<Rightarrow> None
                                    | Some bytes \<Rightarrow>
                                        Some (file\<lparr>mem := memcpy_at buf 0
                                                        (take sz (bytes @ replicate sz 0))\<rparr>))))
               else Some file)
      else Some file)"

definition H5FD__core_open :: "core_open_env \<Rightarrow> H5FD_core_fapl_t \<Rightarrow> H5FD_core_t option" where
  "H5FD__core_open env fa =
     (case core_open_backing env fa of
        None \<Rightarrow> None
      | Some file0 \<Rightarrow>
          (let file1 = file0\<lparr>increment := (if fa_increment fa > 0 then fa_increment fa
                                             else H5FD_CORE_INCREMENT),
                             backing_store := fa_backing_store fa\<rparr>
           in case core_open_load env file1 of
                None \<Rightarrow> None
              | Some file2 \<Rightarrow>
                  (let file3 = file2\<lparr>write_tracking := fa_write_tracking fa,
                                     bstore_page_size := fa_page_size fa, dirty_list := None\<rparr>
                   in if fa_backing_store fa
                      then (let use_write_tracking =
                                  (fa_write_tracking fa \<and> oe_flags_rdwr env
                                   \<and> bstore_page_size file3 \<noteq> 0)
                            in if use_write_tracking
                               then (if \<not> oe_sl_create_ok env then None
                                     else Some (file3\<lparr>dirty_list := Some []\<rparr>))
                               else Some file3)
                      else Some file3)))"

text \<open>
  A file that is created (H5Fcreate asks for truncation or exclusive creation) or
  that starts from an image (the name must not exist) has a backing file of size zero.
\<close>

definition open_env_consistent :: "core_open_env \<Rightarrow> bool" where
  "open_env_consistent env =
     (if oe_flags_creat env \<or> oe_image env \<noteq> []
      then (case oe_posix_open env of None \<Rightarrow> True | Some st_size \<Rightarrow> st_size = 0)
      else True)"

text \<open>The size of the initial content that an open loads.\<close>

definition initial_content_size :: "core_open_env \<Rightarrow> nat" where
  "initial_content_size env =
     (if oe_flags_creat env then 0
      else if oe_image env \<noteq> [] then length (oe_image env)
      else (case oe_posix_open env of None \<Rightarrow> 0 | Some st_size \<Rightarrow> st_size))"

text \<open>The invariant of an open core file that the read and write paths rely on.\<close>

definition core_inv :: "H5FD_core_t \<Rightarrow> bool" where
  "core_inv file =
     (pc_eof (pos_com file) \<le> length (mem file) \<and> 0 < increment file
      \<and> increment file < 2 ^ 64)"

section \<open>Properties of the core driver\<close>

lemma as_HDoff_t_small: "x < 2 ^ 63 \<Longrightarrow> as_HDoff_t x = int x"
proof -
  assume a: "x < 2 ^ 63"
  have "(2::nat) ^ 63 < 2 ^ 64" by simp
  with a have "x < 2 ^ 64" by (rule less_trans)
  then have "x mod 2 ^ 64 = x" by (rule mod_less)
  with a show ?thesis unfolding as_HDoff_t_def by (simp only: if_True)
qed

lemma as_HDoff_t_large: "2 ^ 63 \<le> x \<Longrightarrow> x < 2 ^ 64 \<Longrightarrow> as_HDoff_t x < 0"
proof -
  assume a: "2 ^ 63 \<le> x" and b: "x < 2 ^ 64"
  from b have m: "x mod 2 ^ 64 = x" by (rule mod_less)
  from a have n: "\<not> x < 2 ^ 63" by (simp only: not_less)
  from b have "int x < 2 ^ 64" by (metis of_nat_less_iff of_nat_numeral of_nat_power)
  then have "int x - 2 ^ 64 < 0" by linarith
  with m n show ?thesis unfolding as_HDoff_t_def by (simp only: if_False)
qed

lemma region_overflow_iff: "H5FD_POSIX_REGION_OVERFLOW a z = (2 ^ 63 \<le> a + z)"
proof (cases "a + z < 2 ^ 63")
  case True
  then have az: "a < 2 ^ 63" "z < 2 ^ 63" by linarith+
  have p: "(2::nat) ^ 63 = Suc (2 ^ 63 - 1)" by simp
  from az have 1: "\<not> a > H5_POSIX_MAXADDR" "\<not> z > H5_POSIX_MAXADDR"
    unfolding H5_POSIX_MAXADDR_def by linarith+
  have lt: "(2::nat) ^ 63 < 2 ^ 64 - 1" by simp
  from az lt have 2: "HADDR_UNDEF \<noteq> a" unfolding HADDR_UNDEF_def by linarith
  from True lt have s: "a + z < 2 ^ 64 - 1" by linarith
  then have "a + z < 2 ^ 64" by linarith
  then have m: "(a + z) mod 2 ^ 64 = a + z" by (rule mod_less)
  from s have 3: "HADDR_UNDEF \<noteq> (a + z) mod 2 ^ 64" unfolding HADDR_UNDEF_def m by linarith
  have 4: "\<not> as_HDoff_t (a + z) < as_HDoff_t a"
    using as_HDoff_t_small [OF True] as_HDoff_t_small [OF az(1)] by simp
  from 1 2 3 4 True show ?thesis
    unfolding H5FD_POSIX_REGION_OVERFLOW_def H5FD_POSIX_ADDR_OVERFLOW_def
      H5FD_POSIX_SIZE_OVERFLOW_def by (simp only: not_less [symmetric] simp_thms)
next
  case False
  then have ge: "2 ^ 63 \<le> a + z" by (simp only: not_less)
  show ?thesis
  proof (cases "a < 2 ^ 63 \<and> z < 2 ^ 63")
    case True
    then have az: "a < 2 ^ 63" "z < 2 ^ 63" by blast+
    have "(2::nat) ^ 64 = 2 ^ 63 + 2 ^ 63" by simp
    with az have "a + z < 2 ^ 64" by linarith
    from as_HDoff_t_large [OF ge this] as_HDoff_t_small [OF az(1)]
    have "as_HDoff_t (a + z) < as_HDoff_t a" by linarith
    with ge show ?thesis unfolding H5FD_POSIX_REGION_OVERFLOW_def by (simp only: simp_thms)
  next
    case False
    have "(2::nat) ^ 63 - 1 < 2 ^ 63" by simp
    with False have "a > H5_POSIX_MAXADDR \<or> z > H5_POSIX_MAXADDR"
      unfolding H5_POSIX_MAXADDR_def by (metis not_less less_le_trans)
    with ge show ?thesis
      unfolding H5FD_POSIX_REGION_OVERFLOW_def H5FD_POSIX_ADDR_OVERFLOW_def
        H5FD_POSIX_SIZE_OVERFLOW_def by blast
  qed
qed

declare remove_shadowed.simps [simp del]

lemma remove_shadowed_status: "fst (remove_shadowed sl a start) \<noteq> FAIL"
proof (induction sl a start rule: remove_shadowed.induct)
  case (1 sl a_item start)
  show ?case
  proof (cases a_item)
    case None
    then show ?thesis by (subst remove_shadowed.simps) simp
  next
    case (Some a)
    show ?thesis
    proof (cases "fst a > start")
      case False
      with Some show ?thesis by (subst remove_shadowed.simps) simp
    next
      case True
      show ?thesis
      proof (cases "H5SL_remove sl (fst a)")
        case None
        with Some True show ?thesis by (subst remove_shadowed.simps) (simp add: Let_def)
      next
        case rm: (Some p)
        obtain removed sl' where p: "p = (removed, sl')" by (cases p)
        show ?thesis
        proof (cases "H5SL_less sl (fst a - 1)")
          case None
          with Some True rm p show ?thesis by (subst remove_shadowed.simps) (simp add: Let_def)
        next
          case ls: (Some l)
          from "1.IH" [OF Some True refl refl rm p [symmetric] ls]
          have "fst (remove_shadowed sl' (Some l) start) \<noteq> FAIL" .
          with Some True rm p ls show ?thesis by (subst remove_shadowed.simps) (simp add: Let_def)
        qed
      qed
    qed
  qed
qed

lemma file_dirty_list_id: "file\<lparr>dirty_list := dirty_list file\<rparr> = (file :: H5FD_core_t)"
  by simp

lemma add_dirty_region_shape:
  "\<exists>dl. snd (H5FD__core_add_dirty_region env file s e) = file\<lparr>dirty_list := dl\<rparr>
        \<and> (dl = None \<longrightarrow> dirty_list file = None)"
proof (cases "dirty_list file")
  case None
  then have "snd (H5FD__core_add_dirty_region env file s e) = file\<lparr>dirty_list := None\<rparr>"
    by (simp add: H5FD__core_add_dirty_region_def)
  with None show ?thesis by blast
next
  case (Some sl)
  obtain r sl' where a: "add_dirty_region_list env (bstore_page_size file) (pc_eof (pos_com file))
                       sl s e = (r, sl')" by (cases "add_dirty_region_list env (bstore_page_size file) (pc_eof (pos_com file))
                       sl s e")
  from Some a have "snd (H5FD__core_add_dirty_region env file s e) = file\<lparr>dirty_list := Some sl\<rparr>
     \<or> snd (H5FD__core_add_dirty_region env file s e) = file\<lparr>dirty_list := Some sl'\<rparr>"
    by (simp add: H5FD__core_add_dirty_region_def)
  then show ?thesis by blast
qed


lemma uadd64_small: "a + b < 2 ^ 64 \<Longrightarrow> uadd64 a b = a + b"
  unfolding uadd64_def by (rule mod_less)

lemma usub64_one: "0 < a \<Longrightarrow> a < 2 ^ 64 \<Longrightarrow> usub64 a 1 = a - 1"
proof -
  assume a: "0 < a" "a < 2 ^ 64"
  have o: "(1::nat) mod 2 ^ 64 = 1" by simp
  from a have e: "a + 2 ^ 64 - 1 = (a - 1) + 1 * 2 ^ 64" by simp
  from a have l: "a - 1 < 2 ^ 64" by simp
  have "usub64 a 1 = (a + 2 ^ 64 - 1) mod 2 ^ 64" unfolding usub64_def o ..
  also have "\<dots> = ((a - 1) + 1 * 2 ^ 64) mod 2 ^ 64" unfolding e ..
  also have "\<dots> = (a - 1) mod 2 ^ 64" by (rule mod_mult_self1)
  also have "\<dots> = a - 1" using l by (rule mod_less)
  finally show ?thesis .
qed

lemma addr_limit_less: "(2::nat) ^ 63 < 2 ^ 64"
  by simp

lemma addr_limit_double: "(2::nat) ^ 63 + 2 ^ 63 = 2 ^ 64"
  by simp

text \<open>The smallest multiple of the increment that is not below \<open>need\<close>.\<close>

definition core_grown_size :: "nat \<Rightarrow> nat \<Rightarrow> nat" where
  "core_grown_size inc need =
     (if need mod inc \<noteq> 0 then inc * (need div inc) + inc else inc * (need div inc))"

lemma core_grown_size_props:
  assumes "0 < inc"
  shows "inc dvd core_grown_size inc need" and "need \<le> core_grown_size inc need"
    and "core_grown_size inc need < need + inc"
proof -
  have d: "need = inc * (need div inc) + need mod inc" by simp
  from assms have m: "need mod inc < inc" by simp
  show "inc dvd core_grown_size inc need" by (simp add: core_grown_size_def)
  show "need \<le> core_grown_size inc need"
  proof (cases "need mod inc = 0")
    case True
    with d show ?thesis by (simp add: core_grown_size_def)
  next
    case False
    have "need \<le> inc * (need div inc) + inc" using d m by linarith
    with False show ?thesis by (simp add: core_grown_size_def)
  qed
  show "core_grown_size inc need < need + inc"
  proof (cases "need mod inc = 0")
    case True
    with d assms show ?thesis by (simp add: core_grown_size_def)
  next
    case False
    then have "0 < need mod inc" by simp
    then have "inc * (need div inc) + inc < need + inc" using d by linarith
    with False show ?thesis by (simp add: core_grown_size_def)
  qed
qed

lemma core_grown_size_minimal:
  assumes "0 < inc" "inc dvd m" "need \<le> m"
  shows "core_grown_size inc need \<le> m"
proof -
  from assms(2) obtain k where k: "m = inc * k" by (rule dvdE)
  from core_grown_size_props(1) [OF assms(1), of need] obtain j
    where j: "core_grown_size inc need = inc * j" by (rule dvdE)
  have "core_grown_size inc need < m + inc"
    using core_grown_size_props(3) [OF assms(1), of need] assms(3) by linarith
  then have "inc * j < inc * (k + 1)" unfolding j k by simp
  then have "j < k + 1" by (rule mult_less_cancel1 [THEN iffD1, THEN conjunct2])
  then have "inc * j \<le> inc * k" by simp
  then show ?thesis unfolding j k .
qed

lemma core_grown_size_wrap:
  assumes "0 < inc" "inc < 2 ^ 64" "need < 2 ^ 63"
  shows "core_grown_size inc need < 2 ^ 64"
proof (cases "inc \<le> need")
  case True
  have "core_grown_size inc need < need + inc" by (rule core_grown_size_props(3) [OF assms(1)])
  also have "\<dots> < 2 ^ 63 + 2 ^ 63" using True assms(3) by linarith
  finally show ?thesis unfolding addr_limit_double .
next
  case False
  then have "need div inc = 0" by simp
  then have "core_grown_size inc need \<le> inc" by (simp add: core_grown_size_def)
  with assms(2) show ?thesis by linarith
qed


lemma addr_overflow_iff: "a < 2 ^ 64 \<Longrightarrow> H5FD_POSIX_ADDR_OVERFLOW a = (2 ^ 63 \<le> a)"
proof -
  assume a: "a < 2 ^ 64"
  have p: "(2::nat) ^ 63 = Suc (2 ^ 63 - 1)" by simp
  have "(H5_POSIX_MAXADDR < a) = (2 ^ 63 \<le> a)"
    unfolding H5_POSIX_MAXADDR_def by (subst (2) p) (simp only: Suc_le_eq)
  moreover have "HADDR_UNDEF = a \<Longrightarrow> 2 ^ 63 \<le> a"
    unfolding HADDR_UNDEF_def using addr_limit_less by linarith
  ultimately show ?thesis unfolding H5FD_POSIX_ADDR_OVERFLOW_def by blast
qed

text \<open>The buffer after a reallocation to \<open>n\<close> bytes and the zeroing from \<open>eof\<close> on.\<close>

lemma grown_buffer:
  assumes "eof \<le> length old" "eof \<le> n"
  shows "memset_zero (realloc_bytes old n junk) eof (n - eof) = take eof old @ replicate (n - eof) 0"
proof -
  have l: "length (realloc_bytes old n junk) = n"
    by (simp add: realloc_bytes_def)
  have t: "take eof (realloc_bytes old n junk) = take eof old"
    using assms by (simp add: realloc_bytes_def min_def)
  from assms have "eof + (n - eof) = n" by simp
  with l have d: "drop (eof + (n - eof)) (realloc_bytes old n junk) = []" by simp
  show ?thesis unfolding memset_zero_def t d by simp
qed

lemma core_extend_eq:
  assumes inv: "core_inv f" and need: "need < 2 ^ 63" and gt: "pc_eof (pos_com f) < need"
  shows "core_extend env f need =
     (if \<not> realloc_ok env then (FAIL, f)
      else if 2 ^ 63 \<le> core_grown_size (increment f) need
      then (FAIL, f\<lparr>mem := take (pc_eof (pos_com f)) (mem f)
                          @ replicate (core_grown_size (increment f) need - pc_eof (pos_com f)) 0\<rparr>)
      else (SUCCEED, f\<lparr>mem := take (pc_eof (pos_com f)) (mem f)
                          @ replicate (core_grown_size (increment f) need - pc_eof (pos_com f)) 0,
                        pos_com := (pos_com f)\<lparr>pc_eof := core_grown_size (increment f) need\<rparr>\<rparr>))"
proof -
  from inv have i: "0 < increment f" "increment f < 2 ^ 64" "pc_eof (pos_com f) \<le> length (mem f)"
    by (simp_all add: core_inv_def)
  let ?g = "core_grown_size (increment f) need"
  have w: "?g < 2 ^ 64" using i(1,2) need by (rule core_grown_size_wrap)
  have ge: "need \<le> ?g" by (rule core_grown_size_props(2) [OF i(1)])
  have n: "(if need mod increment f \<noteq> 0
            then uadd64 (increment f * (need div increment f)) (increment f)
            else increment f * (need div increment f)) = ?g"
  proof (cases "need mod increment f = 0")
    case True
    then show ?thesis by (simp add: core_grown_size_def)
  next
    case False
    then have e: "?g = increment f * (need div increment f) + increment f"
      by (simp add: core_grown_size_def)
    with w have "uadd64 (increment f * (need div increment f)) (increment f)
       = increment f * (need div increment f) + increment f"
      by (intro uadd64_small) simp
    with False e show ?thesis by simp
  qed
  from gt ge have le: "pc_eof (pos_com f) \<le> ?g" by linarith
  note b = grown_buffer [OF i(3) le]
  note o = addr_overflow_iff [OF w]
  show ?thesis
    using i(1) unfolding core_extend_def Let_def n
    by (simp add: H5FD__posix_common_set_eof_def b o del: One_nat_def)
qed


lemma core_write_grow_facts:
  assumes inv: "core_inv f" and lim: "addr + sz < 2 ^ 63"
    and g: "core_write_grow env f addr sz = (r, f1)"
  shows "core_inv f1" and "pc_eof (pos_com f) \<le> pc_eof (pos_com f1)"
    and "core_byte f1 = core_byte f" and "dirty f1 = dirty f"
    and "dirty_list f1 = dirty_list f" and "increment f1 = increment f"
    and "bstore_page_size f1 = bstore_page_size f" and "r \<noteq> NORETURN"
    and "r = SUCCEED \<Longrightarrow> addr + sz \<le> pc_eof (pos_com f1)"
    and "r = SUCCEED \<Longrightarrow> pc_eof (pos_com f) < addr + sz \<Longrightarrow>
           pc_eof (pos_com f1) = core_grown_size (increment f) (addr + sz)
           \<and> length (mem f1) = pc_eof (pos_com f1)"
    and "r = SUCCEED \<Longrightarrow> pc_eof (pos_com f1) < 2 ^ 63 \<or> f1 = f"
proof -
  from inv have i: "0 < increment f" "increment f < 2 ^ 64" "pc_eof (pos_com f) \<le> length (mem f)"
    by (simp_all add: core_inv_def)
  let ?g = "core_grown_size (increment f) (addr + sz)"
  let ?eof = "pc_eof (pos_com f)"
  have all: "core_inv f1 \<and> ?eof \<le> pc_eof (pos_com f1) \<and> core_byte f1 = core_byte f
      \<and> dirty f1 = dirty f \<and> dirty_list f1 = dirty_list f \<and> increment f1 = increment f
      \<and> bstore_page_size f1 = bstore_page_size f \<and> r \<noteq> NORETURN
      \<and> (r = SUCCEED \<longrightarrow> addr + sz \<le> pc_eof (pos_com f1))
      \<and> (r = SUCCEED \<longrightarrow> ?eof < addr + sz \<longrightarrow>
           pc_eof (pos_com f1) = ?g \<and> length (mem f1) = pc_eof (pos_com f1))
      \<and> (r = SUCCEED \<longrightarrow> pc_eof (pos_com f1) < 2 ^ 63 \<or> f1 = f)"
  proof (cases "?eof < addr + sz")
    case False
    with g have "r = SUCCEED" "f1 = f" by (simp_all add: core_write_grow_def)
    with False inv show ?thesis by simp
  next
    case True
    have ge: "addr + sz \<le> ?g" by (rule core_grown_size_props(2) [OF i(1)])
    with True have le: "?eof \<le> ?g" by linarith
    from True g have e: "core_extend env f (addr + sz) = (r, f1)"
      by (simp add: core_write_grow_def)
    note c = core_extend_eq [OF inv lim True, of env]
    show ?thesis
    proof (cases "realloc_ok env")
      case False
      with c e have "r = FAIL" "f1 = f" by simp_all
      with inv show ?thesis by simp
    next
      case ok: True
      show ?thesis
      proof (cases "2 ^ 63 \<le> ?g")
        case big: True
        with ok c e have r: "r = FAIL"
          and f1: "f1 = f\<lparr>mem := take ?eof (mem f) @ replicate (?g - ?eof) 0\<rparr>" by simp_all
        have "core_byte f1 = core_byte f"
          unfolding f1 using i(3) le by (auto simp: core_byte_def fun_eq_iff nth_append)
        moreover have "core_inv f1" unfolding f1 using i le by (simp add: core_inv_def)
        ultimately show ?thesis using r by (simp add: f1)
      next
        case small: False
        with ok c e have r: "r = SUCCEED"
          and f1: "f1 = f\<lparr>mem := take ?eof (mem f) @ replicate (?g - ?eof) 0,
                          pos_com := (pos_com f)\<lparr>pc_eof := ?g\<rparr>\<rparr>" by simp_all
        have "core_byte f1 = core_byte f"
          unfolding f1 using i(3) le by (auto simp: core_byte_def fun_eq_iff nth_append)
        moreover have "core_inv f1" unfolding f1 using i le by (simp add: core_inv_def)
        moreover have "length (mem f1) = ?g" unfolding f1 using i(3) le by simp
        moreover have "pc_eof (pos_com f1) = ?g" unfolding f1 by simp
        moreover from small have "?g < 2 ^ 63" by (simp only: not_le)
        ultimately show ?thesis using r ge le by (simp add: f1)
      qed
    qed
  qed
  from all show "core_inv f1" by blast
  from all show "pc_eof (pos_com f) \<le> pc_eof (pos_com f1)" by blast
  from all show "core_byte f1 = core_byte f" by blast
  from all show "dirty f1 = dirty f" by blast
  from all show "dirty_list f1 = dirty_list f" by blast
  from all show "increment f1 = increment f" by blast
  from all show "bstore_page_size f1 = bstore_page_size f" by blast
  from all show "r \<noteq> NORETURN" by blast
  from all show "r = SUCCEED \<Longrightarrow> addr + sz \<le> pc_eof (pos_com f1)" by blast
  from all show "r = SUCCEED \<Longrightarrow> pc_eof (pos_com f) < addr + sz \<Longrightarrow>
           pc_eof (pos_com f1) = core_grown_size (increment f) (addr + sz)
           \<and> length (mem f1) = pc_eof (pos_com f1)" by blast
  from all show "r = SUCCEED \<Longrightarrow> pc_eof (pos_com f1) < 2 ^ 63 \<or> f1 = f" by blast
qed

lemma core_write_track_facts:
  assumes "core_write_track env f1 addr sz = (r, f2)"
  shows "mem f2 = mem f1" and "pos_com f2 = pos_com f1" and "dirty f2 = dirty f1"
    and "increment f2 = increment f1" and "bstore_page_size f2 = bstore_page_size f1"
    and "core_byte f2 = core_byte f1" and "core_inv f2 = core_inv f1"
    and "(dirty_list f2 = None) = (dirty_list f1 = None)"
proof -
  have "\<exists>dl. f2 = f1\<lparr>dirty_list := dl\<rparr> \<and> (dl = None \<longrightarrow> dirty_list f1 = None)"
  proof (cases "dirty_list f1 = None")
    case True
    with assms have "f2 = f1\<lparr>dirty_list := None\<rparr>" by (simp add: core_write_track_def)
    with True show ?thesis by blast
  next
    case False
    with assms have "f2 = snd (H5FD__core_add_dirty_region env f1 addr (usub64 (addr + sz) 1))"
      by (simp add: core_write_track_def)
    with add_dirty_region_shape [of env f1 addr "usub64 (addr + sz) 1"] show ?thesis by simp
  qed
  then obtain dl where f2: "f2 = f1\<lparr>dirty_list := dl\<rparr>" and n: "dl = None \<longrightarrow> dirty_list f1 = None"
    by blast
  show "mem f2 = mem f1" "pos_com f2 = pos_com f1" "dirty f2 = dirty f1"
    "increment f2 = increment f1" "bstore_page_size f2 = bstore_page_size f1"
    by (simp_all add: f2)
  show "core_byte f2 = core_byte f1" by (simp add: f2 core_byte_def fun_eq_iff)
  show "core_inv f2 = core_inv f1" by (simp add: f2 core_inv_def)
  show "(dirty_list f2 = None) = (dirty_list f1 = None)"
  proof (cases "dirty_list f1 = None")
    case True
    with assms show ?thesis by (simp add: core_write_track_def)
  next
    case False
    with n f2 show ?thesis by auto
  qed
qed


lemma core_write_cases:
  assumes no: "\<not> H5FD_POSIX_REGION_OVERFLOW addr (length buf)"
  obtains (grow_fails) r f1 where "core_write_grow env f addr (length buf) = (r, f1)"
      "r \<noteq> SUCCEED" "H5FD__core_write env f addr buf = (r, f1)"
  | (track_fails) r f1 f2 where "core_write_grow env f addr (length buf) = (SUCCEED, f1)"
      "core_write_track env f1 addr (length buf) = (r, f2)"
      "r \<noteq> SUCCEED" "H5FD__core_write env f addr buf = (r, f2)"
  | (succeeds) f1 f2 where "core_write_grow env f addr (length buf) = (SUCCEED, f1)"
      "core_write_track env f1 addr (length buf) = (SUCCEED, f2)"
      "H5FD__core_write env f addr buf
         = (SUCCEED, f2\<lparr>mem := memcpy_at (mem f2) addr buf, dirty := True\<rparr>)"
proof -
  obtain r1 f1 where g: "core_write_grow env f addr (length buf) = (r1, f1)"
    by (cases "core_write_grow env f addr (length buf)")
  show thesis
  proof (cases "r1 = SUCCEED")
    case False
    with no g have "H5FD__core_write env f addr buf = (r1, f1)"
      by (cases r1) (simp_all add: H5FD__core_write_def)
    with g False show thesis by (rule grow_fails)
  next
    case True
    obtain r2 f2 where t: "core_write_track env f1 addr (length buf) = (r2, f2)"
      by (cases "core_write_track env f1 addr (length buf)")
    show thesis
    proof (cases "r2 = SUCCEED")
      case False
      with no g True t have "H5FD__core_write env f addr buf = (r2, f2)"
        by (cases r2) (simp_all add: H5FD__core_write_def)
      with g t True False show thesis by (intro track_fails [of f1 r2 f2]) simp_all
    next
      case r2: True
      with no g True t have "H5FD__core_write env f addr buf
         = (SUCCEED, f2\<lparr>mem := memcpy_at (mem f2) addr buf, dirty := True\<rparr>)"
        by (simp add: H5FD__core_write_def)
      with g t True r2 show thesis by (intro succeeds [of f1 f2]) simp_all
    qed
  qed
qed

lemma memcpy_at_length: "addr + length src \<le> length m \<Longrightarrow> length (memcpy_at m addr src) = length m"
  by (simp add: memcpy_at_def)

lemma memcpy_at_nth:
  assumes "addr + length src \<le> length m" "i < length m"
  shows "memcpy_at m addr src ! i
       = (if addr \<le> i \<and> i < addr + length src then src ! (i - addr) else m ! i)"
proof -
  from assms have l: "length (take addr m) = addr" by simp
  show ?thesis
  proof (cases "i < addr")
    case True
    with assms show ?thesis by (simp add: memcpy_at_def nth_append)
  next
    case False
    show ?thesis
    proof (cases "i < addr + length src")
      case True
      with False have "i - addr < length src" by linarith
      with True False assms show ?thesis by (simp add: memcpy_at_def nth_append)
    next
      case f2: False
      with False have a: "\<not> i - addr < length src" "addr + length src + (i - addr - length src) = i"
        by linarith+
      have "drop (addr + length src) m ! (i - addr - length src) = m ! i"
        using assms a(2) by (simp add: nth_drop del: diff_diff_left)
      with False f2 a assms show ?thesis by (simp add: memcpy_at_def nth_append del: diff_diff_left)
    qed
  qed
qed

text \<open>What a call of H5FD__core_write leaves, whatever its outcome.\<close>

lemma core_write_facts:
  assumes inv: "core_inv f" and w: "H5FD__core_write env f addr buf = (r, f')"
  shows "core_inv f'" and "pc_eof (pos_com f) \<le> pc_eof (pos_com f')"
    and "increment f' = increment f"
    and "r \<noteq> SUCCEED \<Longrightarrow> core_byte f' = core_byte f \<and> dirty f' = dirty f"
    and "r = SUCCEED \<Longrightarrow> addr + length buf \<le> pc_eof (pos_com f') \<and> dirty f'
           \<and> core_byte f' = (\<lambda>i. if addr \<le> i \<and> i < addr + length buf then buf ! (i - addr)
                                   else core_byte f i)"
    and "r = SUCCEED \<Longrightarrow> pc_eof (pos_com f) < addr + length buf \<Longrightarrow>
           pc_eof (pos_com f') = core_grown_size (increment f) (addr + length buf)
           \<and> length (mem f') = pc_eof (pos_com f')"
proof -
  have all: "core_inv f' \<and> pc_eof (pos_com f) \<le> pc_eof (pos_com f')
      \<and> increment f' = increment f
      \<and> (r \<noteq> SUCCEED \<longrightarrow> core_byte f' = core_byte f \<and> dirty f' = dirty f)
      \<and> (r = SUCCEED \<longrightarrow> addr + length buf \<le> pc_eof (pos_com f') \<and> dirty f'
           \<and> core_byte f' = (\<lambda>i. if addr \<le> i \<and> i < addr + length buf then buf ! (i - addr)
                                   else core_byte f i))
      \<and> (r = SUCCEED \<longrightarrow> pc_eof (pos_com f) < addr + length buf \<longrightarrow>
           pc_eof (pos_com f') = core_grown_size (increment f) (addr + length buf)
           \<and> length (mem f') = pc_eof (pos_com f'))"
  proof (cases "H5FD_POSIX_REGION_OVERFLOW addr (length buf)")
    case True
    with w have "r = FAIL" "f' = f" by (simp_all add: H5FD__core_write_def)
    with inv show ?thesis by simp
  next
    case False
    then have lim: "addr + length buf < 2 ^ 63" by (simp add: region_overflow_iff)
    from False show ?thesis
    proof (cases rule: core_write_cases [of addr buf env f])
      case (grow_fails r1 f1)
      with w have e: "r = r1" "f' = f1" by simp_all
      note core_write_grow_facts [OF inv lim grow_fails(1)]
      with grow_fails(2) show ?thesis unfolding e by simp
    next
      case (track_fails r2 f1 f2)
      with w have e: "r = r2" "f' = f2" by simp_all
      note g = core_write_grow_facts [OF inv lim track_fails(1)]
      note t = core_write_track_facts [OF track_fails(2)]
      from track_fails(3) g t show ?thesis unfolding e by simp
    next
      case (succeeds f1 f2)
      with w have e: "r = SUCCEED" "f' = f2\<lparr>mem := memcpy_at (mem f2) addr buf, dirty := True\<rparr>"
        by simp_all
      note g = core_write_grow_facts [OF inv lim succeeds(1)]
      note t = core_write_track_facts [OF succeeds(2)]
      from g(1) t have inv2: "core_inv f2" by simp
      from g(9) t have cover: "addr + length buf \<le> pc_eof (pos_com f2)" by simp
      from inv2 have le2: "pc_eof (pos_com f2) \<le> length (mem f2)" by (simp add: core_inv_def)
      from cover le2 have fit: "addr + length buf \<le> length (mem f2)" by linarith
      have len: "length (mem f') = length (mem f2)"
        unfolding e using fit by (simp add: memcpy_at_length)
      have cb: "core_byte f' = (\<lambda>i. if addr \<le> i \<and> i < addr + length buf then buf ! (i - addr)
                                   else core_byte f i)"
      proof
        fix i
        show "core_byte f' i = (if addr \<le> i \<and> i < addr + length buf then buf ! (i - addr)
                                   else core_byte f i)"
        proof (cases "i < pc_eof (pos_com f2)")
          case True
          with le2 have "i < length (mem f2)" by linarith
          note n = memcpy_at_nth [OF fit this]
          from True have "mem f2 ! i = core_byte f2 i" by (simp add: core_byte_def)
          also have "\<dots> = core_byte f i" using t(6) g(3) by simp
          finally have m: "mem f2 ! i = core_byte f i" .
          from True have "core_byte f' i = memcpy_at (mem f2) addr buf ! i"
            unfolding e by (simp add: core_byte_def)
          with n m show ?thesis by simp
        next
          case False
          with cover have o: "\<not> i < addr + length buf" by linarith
          from False have "core_byte f2 i = 0" by (simp add: core_byte_def)
          then have m: "core_byte f i = 0" using t(6) g(3) by simp
          from False have "core_byte f' i = 0" unfolding e by (simp add: core_byte_def)
          with o m show ?thesis by simp
        qed
      qed
      have i': "core_inv f'" using inv2 len unfolding e by (simp add: core_inv_def)
      have "pc_eof (pos_com f') = pc_eof (pos_com f2)" unfolding e by simp
      with g t cover cb i' len show ?thesis unfolding e(1) by (simp add: e(2))
    qed
  qed
  from all show "core_inv f'" by blast
  from all show "pc_eof (pos_com f) \<le> pc_eof (pos_com f')" by blast
  from all show "increment f' = increment f" by blast
  from all show "r \<noteq> SUCCEED \<Longrightarrow> core_byte f' = core_byte f \<and> dirty f' = dirty f" by blast
  from all show "r = SUCCEED \<Longrightarrow> addr + length buf \<le> pc_eof (pos_com f') \<and> dirty f'
           \<and> core_byte f' = (\<lambda>i. if addr \<le> i \<and> i < addr + length buf then buf ! (i - addr)
                                   else core_byte f i)" by blast
  from all show "r = SUCCEED \<Longrightarrow> pc_eof (pos_com f) < addr + length buf \<Longrightarrow>
           pc_eof (pos_com f') = core_grown_size (increment f) (addr + length buf)
           \<and> length (mem f') = pc_eof (pos_com f')" by blast
qed

text \<open>What H5FD__core_read returns, in terms of the bytes the file holds.\<close>

lemma core_read_bytes:
  assumes le: "pc_eof (pos_com f) \<le> length (mem f)" and lim: "addr + sz < 2 ^ 63"
  shows "H5FD__core_read f addr sz = (SUCCEED, map (core_byte f) [addr..<addr + sz])"
proof -
  from lim have no: "\<not> H5FD_POSIX_REGION_OVERFLOW addr sz" by (simp add: region_overflow_iff)
  from lim addr_limit_less have "addr < 2 ^ 64 - 1" by simp
  then have df: "addr \<noteq> HADDR_UNDEF" unfolding HADDR_UNDEF_def by simp
  let ?eof = "pc_eof (pos_com f)"
  show ?thesis
  proof (cases "addr < ?eof")
    case False
    then have "map (core_byte f) [addr..<addr + sz] = replicate sz 0"
      by (intro nth_equalityI) (simp_all add: core_byte_def)
    with False no df show ?thesis by (simp add: H5FD__core_read_def)
  next
    case True
    let ?n = "min sz (?eof - addr)"
    have "take ?n (drop addr (mem f)) @ replicate (sz - ?n) 0 = map (core_byte f) [addr..<addr + sz]"
    proof (rule nth_equalityI)
      have "?n \<le> length (mem f) - addr" "?n \<le> sz" using True le by simp_all
      then have ln: "length (take ?n (drop addr (mem f))) = ?n" and "?n + (sz - ?n) = sz"
        by (simp_all del: min_less_iff_conj)
      then show l: "length (take ?n (drop addr (mem f)) @ replicate (sz - ?n) 0)
          = length (map (core_byte f) [addr..<addr + sz])"
        by (simp only: length_append length_replicate length_map length_upt add_diff_cancel_left')
      fix i
      assume "i < length (take ?n (drop addr (mem f)) @ replicate (sz - ?n) 0)"
      with l have i: "i < sz" by simp
      then have r: "map (core_byte f) [addr..<addr + sz] ! i = core_byte f (addr + i)" by simp
      show "(take ?n (drop addr (mem f)) @ replicate (sz - ?n) 0) ! i
          = map (core_byte f) [addr..<addr + sz] ! i"
      proof (cases "addr + i < ?eof")
        case a: True
        with i have n: "i < ?n" by simp
        from a le have "addr + i < length (mem f)" by linarith
        then have "take ?n (drop addr (mem f)) ! i = mem f ! (addr + i)"
          using n by (simp del: min_less_iff_conj)
        moreover from n ln have "(take ?n (drop addr (mem f)) @ replicate (sz - ?n) 0) ! i
           = take ?n (drop addr (mem f)) ! i" by (simp only: nth_append if_True)
        ultimately show ?thesis unfolding r using a by (simp add: core_byte_def)
      next
        case b: False
        then have "\<not> i < ?eof - addr" by linarith
        then have n: "\<not> i < ?n" by simp
        from n i have "i - ?n < sz - ?n" by linarith
        then have "replicate (sz - ?n) (0::byte) ! (i - ?n) = 0" by (rule nth_replicate)
        moreover from n ln have "(take ?n (drop addr (mem f)) @ replicate (sz - ?n) 0) ! i
           = replicate (sz - ?n) 0 ! (i - ?n)" by (simp only: nth_append if_False)
        ultimately show ?thesis unfolding r using b by (simp add: core_byte_def)
      qed
    qed
    with True no df show ?thesis by (simp add: H5FD__core_read_def Let_def)
  qed
qed


text \<open>
  The writes of a sequence that leave the range \<open>[addr, addr + sz)\<close> alone: each ends
  at or before \<open>addr\<close> or starts at or after \<open>addr + sz\<close>.
\<close>

definition writes_avoid ::
  "haddr_t \<Rightarrow> nat \<Rightarrow> (core_write_env \<times> haddr_t \<times> byte list) list \<Rightarrow> bool" where
  "writes_avoid addr sz ws = list_all (\<lambda>(env, a, b). a + length b \<le> addr \<or> addr + sz \<le> a) ws"

lemma core_writes_keep_range:
  assumes "core_inv f" and "\<And>i. addr \<le> i \<Longrightarrow> i < addr + sz \<Longrightarrow> core_byte f i = buf ! (i - addr)"
    and "writes_avoid addr sz ws" and "core_writes ws f = Some f2"
  shows "core_inv f2 \<and> (\<forall>i. addr \<le> i \<longrightarrow> i < addr + sz \<longrightarrow> core_byte f2 i = buf ! (i - addr))"
  using assms
proof (induction ws arbitrary: f)
  case Nil
  then show ?case by simp
next
  case (Cons w ws)
  obtain env a b where w: "w = (env, a, b)" by (cases w)
  obtain r f' where wr: "H5FD__core_write env f a b = (r, f')"
    by (cases "H5FD__core_write env f a b")
  from Cons.prems(3) w have av: "a + length b \<le> addr \<or> addr + sz \<le> a" "writes_avoid addr sz ws"
    by (simp_all add: writes_avoid_def)
  from Cons.prems(4) w wr have rest: "core_writes ws f' = Some f2"
    by (cases r) simp_all
  note facts = core_write_facts [OF Cons.prems(1) wr]
  have keep: "core_byte f' i = buf ! (i - addr)" if "addr \<le> i" "i < addr + sz" for i
  proof (cases "r = SUCCEED")
    case False
    with facts(4) have "core_byte f' = core_byte f" by simp
    with Cons.prems(2) [OF that] show ?thesis by simp
  next
    case True
    from av(1) that have n: "\<not> (a \<le> i \<and> i < a + length b)" by linarith
    from facts(5) [OF True] have "core_byte f' i
       = (if a \<le> i \<and> i < a + length b then b ! (i - a) else core_byte f i)" by simp
    with n have "core_byte f' i = core_byte f i" by (simp only: if_False)
    with Cons.prems(2) [OF that] show ?thesis by simp
  qed
  from Cons.IH [OF facts(1) keep av(2) rest] show ?case by simp
qed

lemma core_writes_inv: "core_inv f \<Longrightarrow> core_writes ws f = Some f2 \<Longrightarrow> core_inv f2"
  using core_writes_keep_range [of f 0 0 undefined ws f2] by (simp add: writes_avoid_def list_all_iff split_def)


text \<open>
  Claim C5. For a core file whose buffer covers its end of file, a successful
  write of \<open>buf\<close> at \<open>addr\<close>, followed by any sequence of writes that return and leave
  the range \<open>[addr, addr + sz)\<close> alone, followed by a read of \<open>sz\<close> bytes at \<open>addr\<close> with
  \<open>sz\<close> at most the length of \<open>buf\<close>: the read succeeds and returns the first \<open>sz\<close>
  bytes of \<open>buf\<close>.
\<close>

theorem core_write_read_round_trip:
  assumes "core_inv f" and "H5FD__core_write env f addr buf = (SUCCEED, f1)"
    and "writes_avoid addr sz ws" and "core_writes ws f1 = Some f2"
    and "sz \<le> length buf"
  shows "H5FD__core_read f2 addr sz = (SUCCEED, take sz buf)"
proof -
  have no: "\<not> H5FD_POSIX_REGION_OVERFLOW addr (length buf)"
  proof
    assume "H5FD_POSIX_REGION_OVERFLOW addr (length buf)"
    with assms(2) show False by (simp add: H5FD__core_write_def)
  qed
  then have "addr + length buf < 2 ^ 63" by (simp add: region_overflow_iff)
  with assms(5) have lim: "addr + sz < 2 ^ 63" by linarith
  note w = core_write_facts [OF assms(1,2)]
  from w(5) have cb: "core_byte f1
     = (\<lambda>i. if addr \<le> i \<and> i < addr + length buf then buf ! (i - addr) else core_byte f i)"
    by simp
  have start: "core_byte f1 i = buf ! (i - addr)" if "addr \<le> i" "i < addr + sz" for i
  proof -
    from that assms(5) have "addr \<le> i \<and> i < addr + length buf" by linarith
    then show ?thesis unfolding cb by simp
  qed
  from core_writes_keep_range [OF w(1) start assms(3,4)]
  have inv2: "core_inv f2"
    and keep: "\<And>i. addr \<le> i \<Longrightarrow> i < addr + sz \<Longrightarrow> core_byte f2 i = buf ! (i - addr)"
    by blast+
  from inv2 have le: "pc_eof (pos_com f2) \<le> length (mem f2)" by (simp add: core_inv_def)
  have "map (core_byte f2) [addr..<addr + sz] = take sz buf"
  proof (rule nth_equalityI)
    show "length (map (core_byte f2) [addr..<addr + sz]) = length (take sz buf)"
      using assms(5) by simp
  next
    fix i
    assume "i < length (map (core_byte f2) [addr..<addr + sz])"
    then have i: "i < sz" by simp
    then have "map (core_byte f2) [addr..<addr + sz] ! i = core_byte f2 (addr + i)" by simp
    also have "\<dots> = buf ! (addr + i - addr)" using i by (intro keep) simp_all
    also have "\<dots> = take sz buf ! i" using i by simp
    finally show "map (core_byte f2) [addr..<addr + sz] ! i = take sz buf ! i" .
  qed
  with core_read_bytes [OF le lim] show ?thesis by simp
qed

text \<open>
  Claim C10. A write to a core file with a dirty list, whose buffer has been grown
  where needed and whose call of H5FD__core_add_dirty_region then fails: the write
  returns that failure with the file as that call left it; the buffer is the one the
  growth left (none of the caller's bytes is copied), the dirty flag is as before the
  write, and the file holds the same byte at every address as before the write, so
  that every read returns what it returned before.
\<close>

theorem core_write_region_failure_copies_nothing:
  assumes "core_inv f" and "\<not> H5FD_POSIX_REGION_OVERFLOW addr (length buf)"
    and "dirty_list f \<noteq> None"
    and "core_write_grow env f addr (length buf) = (SUCCEED, f1)"
    and "H5FD__core_add_dirty_region env f1 addr (usub64 (addr + length buf) 1) = (FAIL, f2)"
  shows "H5FD__core_write env f addr buf = (FAIL, f2) \<and> mem f2 = mem f1
      \<and> pos_com f2 = pos_com f1 \<and> dirty f2 = dirty f \<and> core_byte f2 = core_byte f
      \<and> H5FD__core_read f2 a n = H5FD__core_read f a n"
proof -
  from assms(2) have lim: "addr + length buf < 2 ^ 63" by (simp add: region_overflow_iff)
  note g = core_write_grow_facts [OF assms(1) lim assms(4)]
  from g(5) assms(3) have "dirty_list f1 \<noteq> None" by simp
  with assms(5) have t: "core_write_track env f1 addr (length buf) = (FAIL, f2)"
    by (simp add: core_write_track_def)
  note tf = core_write_track_facts [OF t]
  from assms(2,4) t have w: "H5FD__core_write env f addr buf = (FAIL, f2)"
    by (simp add: H5FD__core_write_def)
  from tf(6) g(3) have cb: "core_byte f2 = core_byte f" by simp
  from tf(7) g(1) have "core_inv f2" by simp
  then have le2: "pc_eof (pos_com f2) \<le> length (mem f2)" by (simp add: core_inv_def)
  from assms(1) have le: "pc_eof (pos_com f) \<le> length (mem f)" by (simp add: core_inv_def)
  have rd: "H5FD__core_read f2 a n = H5FD__core_read f a n"
  proof (cases "a + n < 2 ^ 63")
    case True
    from core_read_bytes [OF le2 True] core_read_bytes [OF le True] cb show ?thesis by simp
  next
    case False
    then have "H5FD_POSIX_REGION_OVERFLOW a n" by (simp add: region_overflow_iff)
    then show ?thesis by (simp add: H5FD__core_read_def)
  qed
  from w tf(1,2,3) g(4) cb rd show ?thesis by simp
qed


text \<open>Environments and files for the examples.\<close>

definition core_env_ok :: core_write_env where
  "core_env_ok = \<lparr>realloc_ok = True, realloc_junk = [255, 255], region_calloc_ok = True,
                   sl_insert_ok = True\<rparr>"

definition core_env_no_memory :: core_write_env where
  "core_env_no_memory = core_env_ok\<lparr>realloc_ok := False\<rparr>"

definition core_env_no_insert :: core_write_env where
  "core_env_no_insert = core_env_ok\<lparr>sl_insert_ok := False\<rparr>"

definition core_file_new :: H5FD_core_t where
  "core_file_new = core_file_zero\<lparr>increment := 4\<rparr>"

definition core_file_tracked :: H5FD_core_t where
  "core_file_tracked =
     core_file_zero\<lparr>increment := 4, backing_store := True, file_opened := True,
                     write_tracking := True, bstore_page_size := 8, dirty_list := Some []\<rparr>"

lemma remove_shadowed_None: "remove_shadowed sl None start = (SUCCEED, sl)"
  by (subst remove_shadowed.simps) simp

lemma replicate_numeral: "replicate (numeral k) x = x # replicate (pred_numeral k) x"
  by (simp add: numeral_eq_Suc)

lemmas core_eval_defs = replicate_numeral
  core_env_ok_def core_env_no_memory_def core_env_no_insert_def core_file_new_def
  core_file_tracked_def core_file_zero_def
  H5FD__core_write_def core_write_grow_def core_write_track_def core_extend_def
  H5FD__core_add_dirty_region_def add_dirty_region_list_def region_page_bounds_def
  region_new_end_def region_extend_prev_def region_store_def region_set_end_def
  H5SL_less_def H5SL_search_def H5SL_insert_def H5SL_remove_def remove_shadowed_None
  H5FD__posix_common_set_eof_def H5FD_POSIX_ADDR_OVERFLOW_def HADDR_UNDEF_def
  H5_POSIX_MAXADDR_def region_overflow_iff uadd64_def usub64_def umul64_def
  realloc_bytes_def memset_zero_def memcpy_at_def H5FD__core_read_def core_inv_def
  writes_avoid_def Let_def

lemma core_example_write:
  "H5FD__core_write core_env_ok core_file_new 2 [1, 2, 3]
     = (SUCCEED, core_file_new\<lparr>pos_com := \<lparr>pc_eoa = 0, pc_eof = 8\<rparr>,
                               mem := [0, 0, 1, 2, 3, 0, 0, 0], dirty := True\<rparr>)"
  by (simp add: core_eval_defs)

lemma core_example_writes:
  "core_writes [(core_env_ok, 5, [7]), (core_env_no_memory, 100, [5]), (core_env_ok, 0, [9, 9])]
     (core_file_new\<lparr>pos_com := \<lparr>pc_eoa = 0, pc_eof = 8\<rparr>,
                    mem := [0, 0, 1, 2, 3, 0, 0, 0], dirty := True\<rparr>)
     = Some (core_file_new\<lparr>pos_com := \<lparr>pc_eoa = 0, pc_eof = 8\<rparr>,
                           mem := [9, 9, 1, 2, 3, 7, 0, 0], dirty := True\<rparr>)"
  by (simp add: core_eval_defs)

theorem core_write_read_round_trip_witness:
  "core_inv core_file_new
   \<and> H5FD__core_write core_env_ok core_file_new 2 [1, 2, 3]
     = (SUCCEED, core_file_new\<lparr>pos_com := \<lparr>pc_eoa = 0, pc_eof = 8\<rparr>,
                               mem := [0, 0, 1, 2, 3, 0, 0, 0], dirty := True\<rparr>)
   \<and> writes_avoid 2 3
        [(core_env_ok, 5, [7]), (core_env_no_memory, 100, [5]), (core_env_ok, 0, [9, 9])]
   \<and> core_writes [(core_env_ok, 5, [7]), (core_env_no_memory, 100, [5]), (core_env_ok, 0, [9, 9])]
        (core_file_new\<lparr>pos_com := \<lparr>pc_eoa = 0, pc_eof = 8\<rparr>,
                       mem := [0, 0, 1, 2, 3, 0, 0, 0], dirty := True\<rparr>)
     = Some (core_file_new\<lparr>pos_com := \<lparr>pc_eoa = 0, pc_eof = 8\<rparr>,
                           mem := [9, 9, 1, 2, 3, 7, 0, 0], dirty := True\<rparr>)
   \<and> H5FD__core_read (core_file_new\<lparr>pos_com := \<lparr>pc_eoa = 0, pc_eof = 8\<rparr>,
                           mem := [9, 9, 1, 2, 3, 7, 0, 0], dirty := True\<rparr>) 2 3
     = (SUCCEED, [1, 2, 3])"
proof -
  have i: "core_inv core_file_new" by (simp add: core_eval_defs)
  have a: "writes_avoid 2 3
        [(core_env_ok, 5, [7]), (core_env_no_memory, 100, [5]), (core_env_ok, 0, [9, 9])]"
    by (simp add: writes_avoid_def)
  have l: "3 \<le> length [1 :: byte, 2, 3]" by simp
  from core_write_read_round_trip [OF i core_example_write a core_example_writes l]
    i a core_example_write core_example_writes
  show ?thesis by simp
qed

lemma core_example_grow:
  "core_write_grow core_env_no_insert core_file_tracked 0 (length [1 :: byte, 2])
     = (SUCCEED, core_file_tracked\<lparr>pos_com := \<lparr>pc_eoa = 0, pc_eof = 4\<rparr>, mem := [0, 0, 0, 0]\<rparr>)"
  by (simp add: core_eval_defs)

lemma core_example_region:
  "H5FD__core_add_dirty_region core_env_no_insert
     (core_file_tracked\<lparr>pos_com := \<lparr>pc_eoa = 0, pc_eof = 4\<rparr>, mem := [0, 0, 0, 0]\<rparr>)
     0 (usub64 (0 + length [1 :: byte, 2]) 1)
     = (FAIL, core_file_tracked\<lparr>pos_com := \<lparr>pc_eoa = 0, pc_eof = 4\<rparr>, mem := [0, 0, 0, 0]\<rparr>)"
  by (simp add: core_eval_defs)

theorem core_write_region_failure_copies_nothing_witness:
  "core_inv core_file_tracked \<and> dirty_list core_file_tracked = Some []
   \<and> H5FD__core_write core_env_no_insert core_file_tracked 0 [1, 2]
     = (FAIL, core_file_tracked\<lparr>pos_com := \<lparr>pc_eoa = 0, pc_eof = 4\<rparr>, mem := [0, 0, 0, 0]\<rparr>)
   \<and> H5FD__core_read
        (core_file_tracked\<lparr>pos_com := \<lparr>pc_eoa = 0, pc_eof = 4\<rparr>, mem := [0, 0, 0, 0]\<rparr>) 0 6
     = H5FD__core_read core_file_tracked 0 6
   \<and> H5FD__core_read core_file_tracked 0 6 = (SUCCEED, [0, 0, 0, 0, 0, 0])"
proof -
  have i: "core_inv core_file_tracked" by (simp add: core_eval_defs)
  have n: "\<not> H5FD_POSIX_REGION_OVERFLOW 0 (length [1 :: byte, 2])"
    by (simp add: region_overflow_iff)
  have d: "dirty_list core_file_tracked \<noteq> None" by (simp add: core_eval_defs)
  have r: "H5FD__core_read core_file_tracked 0 6 = (SUCCEED, [0, 0, 0, 0, 0, 0])"
    by (simp add: core_eval_defs)
  have l: "dirty_list core_file_tracked = Some []" by (simp add: core_eval_defs)
  from core_write_region_failure_copies_nothing
         [OF i n d core_example_grow core_example_region, of 0 6] i r l
  show ?thesis by simp
qed


lemma memcpy_at_whole: "length buf = length src \<Longrightarrow> memcpy_at buf 0 src = src"
  by (simp add: memcpy_at_def)

lemma core_open_backing_facts:
  assumes c: "open_env_consistent env" and b: "core_open_backing env fa = Some file0"
  shows "mem file0 = []"
    and "oe_flags_creat env \<or> oe_image env \<noteq> [] \<Longrightarrow> pc_eof (pos_com file0) = 0"
    and "\<not> oe_flags_creat env \<Longrightarrow> oe_image env = [] \<Longrightarrow>
           oe_posix_open env = Some (pc_eof (pos_com file0))"
proof -
  have z: "file0 = core_file_zero
     \<or> (\<exists>st. oe_posix_open env = Some st
            \<and> file0 = core_file_zero\<lparr>pos_com := \<lparr>pc_eoa = 0, pc_eof = st\<rparr>, file_opened := True\<rparr>)"
    using b by (auto simp: core_open_backing_def Let_def split: if_splits option.splits)
  then show "mem file0 = []" by (auto simp: core_file_zero_def)
  show "pc_eof (pos_com file0) = 0" if "oe_flags_creat env \<or> oe_image env \<noteq> []"
    using z c that by (auto simp: core_file_zero_def open_env_consistent_def)
  show "oe_posix_open env = Some (pc_eof (pos_com file0))"
    if "\<not> oe_flags_creat env" "oe_image env = []"
    using b that by (auto simp: core_open_backing_def Let_def split: if_splits option.splits)
qed

lemma core_open_load_facts:
  assumes l: "core_open_load env file1 = Some file2" and m: "mem file1 = []"
  shows "pos_com file2 = pos_com file1" and "increment file2 = increment file1"
    and "length (mem file2)
       = (if oe_flags_creat env then 0
          else if oe_image env \<noteq> [] then length (oe_image env) else pc_eof (pos_com file1))"
proof -
  let ?sz = "if oe_image env \<noteq> [] then length (oe_image env) else pc_eof (pos_com file1)"
  have lb: "length (take ?sz (oe_malloc_junk env @ replicate ?sz (0::byte))) = ?sz" by simp
  have "file2 = file1 \<and> (oe_flags_creat env \<or> ?sz = 0)
     \<or> (\<not> oe_flags_creat env \<and> (\<exists>src. length src = ?sz \<and> file2 = file1\<lparr>mem := src\<rparr>))"
  proof (cases "oe_flags_creat env \<or> ?sz = 0")
    case True
    with l show ?thesis by (auto simp: core_open_load_def Let_def split: if_splits)
  next
    case False
    then have nz: "\<not> oe_flags_creat env" "?sz \<noteq> 0" by simp_all
    show ?thesis
    proof (cases "oe_image env \<noteq> []")
      case True
      with nz l have "file2 = file1\<lparr>mem := memcpy_at (take ?sz (oe_malloc_junk env @ replicate ?sz 0))
                                         0 (oe_image env)\<rparr>"
        by (auto simp: core_open_load_def Let_def split: if_splits)
      moreover from True have "length (take ?sz (oe_malloc_junk env @ replicate ?sz (0::byte)))
          = length (oe_image env)" by simp
      ultimately have "file2 = file1\<lparr>mem := oe_image env\<rparr>" by (simp add: memcpy_at_whole)
      with True nz show ?thesis by auto
    next
      case False
      with nz l obtain bytes where "oe_file_read env = Some bytes"
        and f2: "file2 = file1\<lparr>mem := memcpy_at (take ?sz (oe_malloc_junk env @ replicate ?sz 0))
                                         0 (take ?sz (bytes @ replicate ?sz 0))\<rparr>"
        by (auto simp: core_open_load_def Let_def split: if_splits option.splits)
      have "length (take ?sz (oe_malloc_junk env @ replicate ?sz (0::byte)))
          = length (take ?sz (bytes @ replicate ?sz (0::byte)))" by simp
      then have "memcpy_at (take ?sz (oe_malloc_junk env @ replicate ?sz 0))
                   0 (take ?sz (bytes @ replicate ?sz 0)) = take ?sz (bytes @ replicate ?sz 0)"
        by (rule memcpy_at_whole)
      with f2 have "file2 = file1\<lparr>mem := take ?sz (bytes @ replicate ?sz 0)\<rparr>" by simp
      moreover have "length (take ?sz (bytes @ replicate ?sz (0::byte))) = ?sz" by simp
      ultimately show ?thesis using nz by blast
    qed
  qed
  then show "pos_com file2 = pos_com file1" "increment file2 = increment file1"
    "length (mem file2)
       = (if oe_flags_creat env then 0
          else if oe_image env \<noteq> [] then length (oe_image env) else pc_eof (pos_com file1))"
    using m by auto
qed


lemma core_increment_default: "H5FD_CORE_INCREMENT < 2 ^ 64" "0 < H5FD_CORE_INCREMENT"
  by (simp_all add: H5FD_CORE_INCREMENT_def)

lemma core_open_facts:
  assumes c: "open_env_consistent env" and i: "fa_increment fa < 2 ^ 64"
    and o: "H5FD__core_open env fa = Some f0"
  shows "core_inv f0" and "length (mem f0) = initial_content_size env"
    and "increment f0 = (if fa_increment fa > 0 then fa_increment fa else H5FD_CORE_INCREMENT)"
proof -
  let ?inc = "if fa_increment fa > 0 then fa_increment fa else H5FD_CORE_INCREMENT"
  from o obtain file0 where b: "core_open_backing env fa = Some file0"
    by (cases "core_open_backing env fa") (simp_all add: H5FD__core_open_def)
  let ?file1 = "file0\<lparr>increment := ?inc, backing_store := fa_backing_store fa\<rparr>"
  from o b obtain file2 where l: "core_open_load env ?file1 = Some file2"
    by (cases "core_open_load env ?file1") (simp_all add: H5FD__core_open_def Let_def)
  note bf = core_open_backing_facts [OF c b]
  from bf(1) have m1: "mem ?file1 = []" by simp
  note lf = core_open_load_facts [OF l m1]
  have shape: "\<exists>dl. f0 = file2\<lparr>write_tracking := fa_write_tracking fa,
                                 bstore_page_size := fa_page_size fa, dirty_list := dl\<rparr>"
    using o b l by (auto simp: H5FD__core_open_def Let_def split: if_splits)
  then obtain dl where f0: "f0 = file2\<lparr>write_tracking := fa_write_tracking fa,
                                 bstore_page_size := fa_page_size fa, dirty_list := dl\<rparr>" by blast
  have inc: "increment f0 = ?inc" unfolding f0 using lf(2) by simp
  have eof: "pc_eof (pos_com f0) = pc_eof (pos_com file0)" unfolding f0 using lf(1) by simp
  have len: "length (mem f0)
       = (if oe_flags_creat env then 0
          else if oe_image env \<noteq> [] then length (oe_image env) else pc_eof (pos_com file0))"
    unfolding f0 using lf(3) by simp
  have le: "pc_eof (pos_com f0) \<le> length (mem f0)"
  proof (cases "oe_flags_creat env \<or> oe_image env \<noteq> []")
    case True
    from bf(2) [OF True] eof show ?thesis by simp
  next
    case False
    with len eof show ?thesis by simp
  qed
  have "0 < ?inc" "?inc < 2 ^ 64" using i core_increment_default by auto
  with le inc show "core_inv f0" by (simp add: core_inv_def)
  show "length (mem f0) = initial_content_size env"
  proof (cases "oe_flags_creat env \<or> oe_image env \<noteq> []")
    case True
    with len show ?thesis by (auto simp: initial_content_size_def)
  next
    case False
    then have n: "\<not> oe_flags_creat env" "oe_image env = []" by simp_all
    from bf(3) [OF n] len n show ?thesis by (simp add: initial_content_size_def)
  qed
  show "increment f0 = ?inc" by (rule inc)
qed

text \<open>
  Claim C4, amended. A file that H5FD__core_open returns has a buffer of exactly
  the size of the initial content (nothing for a created file, the image, or the
  backing file), not rounded up to the increment. For that file and every file
  reached from it by calls of H5FD__core_write that return, the buffer covers the end
  of the file; and a write that succeeds and ends past the end of the file leaves a
  buffer whose length is the new end of file and the smallest multiple of the
  increment that covers the write.
\<close>

theorem core_buffer_covers_eof:
  assumes "open_env_consistent oenv" and "fa_increment fa < 2 ^ 64"
    and "H5FD__core_open oenv fa = Some f0" and "core_writes ws f0 = Some f"
  shows "length (mem f0) = initial_content_size oenv
      \<and> pc_eof (pos_com f) \<le> length (mem f)
      \<and> (H5FD__core_write env f addr buf = (SUCCEED, f')
           \<and> pc_eof (pos_com f) < addr + length buf \<longrightarrow>
         length (mem f') = pc_eof (pos_com f') \<and> increment f dvd length (mem f')
         \<and> addr + length buf \<le> length (mem f')
         \<and> length (mem f') < addr + length buf + increment f)"
proof -
  note o = core_open_facts [OF assms(1,2,3)]
  from core_writes_inv [OF o(1) assms(4)] have inv: "core_inv f" .
  then have pos: "0 < increment f" by (simp add: core_inv_def)
  have ext: "length (mem f') = pc_eof (pos_com f') \<and> increment f dvd length (mem f')
         \<and> addr + length buf \<le> length (mem f')
         \<and> length (mem f') < addr + length buf + increment f"
    if w: "H5FD__core_write env f addr buf = (SUCCEED, f')"
      and g: "pc_eof (pos_com f) < addr + length buf"
  proof -
    from core_write_facts(6) [OF inv w refl g]
    have "length (mem f') = core_grown_size (increment f) (addr + length buf)"
      "length (mem f') = pc_eof (pos_com f')" by simp_all
    with core_grown_size_props [OF pos, of "addr + length buf"] show ?thesis by simp
  qed
  from inv have "pc_eof (pos_com f) \<le> length (mem f)" by (simp add: core_inv_def)
  with o(2) ext show ?thesis by blast
qed

text \<open>
  An existing backing file of five bytes, opened with an increment of four; and an
  initial image of three bytes, opened with the default increment.
\<close>

definition core_open_env_file :: core_open_env where
  "core_open_env_file =
     \<lparr>oe_flags_creat = False, oe_flags_rdwr = True, oe_image = [], oe_name_exists = True,
      oe_posix_open = Some 5, oe_malloc_ok = True, oe_malloc_junk = [255],
      oe_image_memcpy_ok = True, oe_file_read = Some [1, 2, 3, 4, 5], oe_sl_create_ok = True\<rparr>"

definition core_fapl_four :: H5FD_core_fapl_t where
  "core_fapl_four = \<lparr>fa_increment = 4, fa_backing_store = True, fa_write_tracking = False,
                     fa_page_size = 0\<rparr>"

definition core_file_five :: H5FD_core_t where
  "core_file_five =
     \<lparr>pos_com = \<lparr>pc_eoa = 0, pc_eof = 5\<rparr>, mem = [1, 2, 3, 4, 5], increment = 4,
      backing_store = True, file_opened = True, write_tracking = False, bstore_page_size = 0,
      dirty = False, dirty_list = None\<rparr>"

definition core_open_env_image :: core_open_env where
  "core_open_env_image =
     \<lparr>oe_flags_creat = False, oe_flags_rdwr = True, oe_image = [1, 2, 3], oe_name_exists = False,
      oe_posix_open = None, oe_malloc_ok = True, oe_malloc_junk = [],
      oe_image_memcpy_ok = True, oe_file_read = None, oe_sl_create_ok = True\<rparr>"

definition core_fapl_default :: H5FD_core_fapl_t where
  "core_fapl_default = \<lparr>fa_increment = 0, fa_backing_store = False, fa_write_tracking = False,
                        fa_page_size = 0\<rparr>"

definition core_file_image :: H5FD_core_t where
  "core_file_image =
     \<lparr>pos_com = \<lparr>pc_eoa = 0, pc_eof = 0\<rparr>, mem = [1, 2, 3], increment = 8192,
      backing_store = False, file_opened = False, write_tracking = False, bstore_page_size = 0,
      dirty = False, dirty_list = None\<rparr>"

lemmas core_open_eval_defs =
  core_open_env_file_def core_fapl_four_def core_file_five_def core_open_env_image_def
  core_fapl_default_def core_file_image_def H5FD__core_open_def core_open_backing_def
  core_open_load_def H5FD_CORE_INCREMENT_def open_env_consistent_def initial_content_size_def

lemma core_example_open:
  "H5FD__core_open core_open_env_file core_fapl_four = Some core_file_five"
  by (simp add: core_open_eval_defs core_eval_defs)

lemma core_example_open_writes:
  "core_writes [(core_env_ok, 0, [9])] core_file_five
     = Some (core_file_five\<lparr>mem := [9, 2, 3, 4, 5], dirty := True\<rparr>)"
  by (simp add: core_open_eval_defs core_eval_defs)

lemma core_example_open_extend:
  "H5FD__core_write core_env_ok (core_file_five\<lparr>mem := [9, 2, 3, 4, 5], dirty := True\<rparr>)
     6 [7, 7, 7]
     = (SUCCEED, core_file_five\<lparr>pos_com := \<lparr>pc_eoa = 0, pc_eof = 12\<rparr>,
                                mem := [9, 2, 3, 4, 5, 0, 7, 7, 7, 0, 0, 0], dirty := True\<rparr>)"
  by (simp add: core_open_eval_defs core_eval_defs)

theorem core_buffer_covers_eof_witness:
  "open_env_consistent core_open_env_file
   \<and> H5FD__core_open core_open_env_file core_fapl_four = Some core_file_five
   \<and> length (mem core_file_five) = 5
   \<and> core_writes [(core_env_ok, 0, [9])] core_file_five
        = Some (core_file_five\<lparr>mem := [9, 2, 3, 4, 5], dirty := True\<rparr>)
   \<and> H5FD__core_write core_env_ok (core_file_five\<lparr>mem := [9, 2, 3, 4, 5], dirty := True\<rparr>)
        6 [7, 7, 7]
      = (SUCCEED, core_file_five\<lparr>pos_com := \<lparr>pc_eoa = 0, pc_eof = 12\<rparr>,
                                 mem := [9, 2, 3, 4, 5, 0, 7, 7, 7, 0, 0, 0], dirty := True\<rparr>)
   \<and> length (mem (core_file_five\<lparr>pos_com := \<lparr>pc_eoa = 0, pc_eof = 12\<rparr>,
                                 mem := [9, 2, 3, 4, 5, 0, 7, 7, 7, 0, 0, 0], dirty := True\<rparr>))
      = 12"
proof -
  have c: "open_env_consistent core_open_env_file" by (simp add: core_open_eval_defs)
  have i: "fa_increment core_fapl_four < 2 ^ 64" by (simp add: core_fapl_four_def)
  from core_buffer_covers_eof [OF c i core_example_open core_example_open_writes,
         of core_env_ok 6 "[7, 7, 7]"
            "core_file_five\<lparr>pos_com := \<lparr>pc_eoa = 0, pc_eof = 12\<rparr>,
                             mem := [9, 2, 3, 4, 5, 0, 7, 7, 7, 0, 0, 0], dirty := True\<rparr>"]
    c core_example_open core_example_open_writes core_example_open_extend
  show ?thesis by (simp add: core_file_five_def)
qed

theorem core_open_buffer_not_rounded_counterexample:
  "H5FD__core_open core_open_env_image core_fapl_default = Some core_file_image
   \<and> length (mem core_file_image) = 3 \<and> increment core_file_image = 8192
   \<and> \<not> increment core_file_image dvd length (mem core_file_image)"
proof -
  have o: "H5FD__core_open core_open_env_image core_fapl_default = Some core_file_image"
    by (simp add: core_open_eval_defs core_eval_defs)
  have l: "length (mem core_file_image) = 3" "increment core_file_image = 8192"
    by (simp_all add: core_file_image_def)
  have "\<not> (8192::nat) dvd 3" by simp
  with o l show ?thesis by (simp only: simp_thms)
qed


section \<open>H5FD__posix_common_read\<close>

text \<open>
  The system call behind the read is \<open>pread\<close> (the build with H5_HAVE_PREADWRITE).
  The file on disk is the list of its bytes. What the operating system does at each
  call is given by a schedule of events: the call is interrupted (it returns -1 with
  errno EINTR), it fails (-1 with another errno), or it transfers at most \<open>k\<close> bytes;
  a call made when the schedule is used up transfers all it can. A call transfers no
  more bytes than were asked for and no more than the file has from the offset on:
  the result is the list of the bytes transferred, empty at the end of the file.
\<close>

datatype pread_event = PREAD_EINTR | PREAD_ERROR | PREAD_SHORT nat

text \<open>
  The loop \<open>do { bytes_read = HDpread(...) } while (-1 == bytes_read && EINTR == errno)\<close>:
  the result is None for -1 and the bytes read otherwise, with the rest of the
  schedule.
\<close>

fun HDpread_retry ::
  "byte list \<Rightarrow> pread_event list \<Rightarrow> nat \<Rightarrow> nat \<Rightarrow> byte list option \<times> pread_event list" where
  "HDpread_retry content [] bytes_in offset = (Some (take bytes_in (drop offset content)), [])"
| "HDpread_retry content (PREAD_EINTR # evs) bytes_in offset =
     HDpread_retry content evs bytes_in offset"
| "HDpread_retry content (PREAD_ERROR # evs) bytes_in offset = (None, evs)"
| "HDpread_retry content (PREAD_SHORT k # evs) bytes_in offset =
     (Some (take (min k bytes_in) (drop offset content)), evs)"

text \<open>
  The loop \<open>while (size > 0)\<close> of H5FD__posix_common_read. \<open>max_io\<close> is
  H5_POSIX_MAX_IO_BYTES, \<open>buf\<close> is the caller's buffer and \<open>pos\<close> the place in it that
  the pointer \<open>buf\<close> of the code has reached.
\<close>

function posix_read_loop ::
  "byte list \<Rightarrow> nat \<Rightarrow> pread_event list \<Rightarrow> nat \<Rightarrow> nat \<Rightarrow> byte list \<Rightarrow> nat
     \<Rightarrow> herr_t \<times> byte list" where
  "posix_read_loop content max_io evs sz offset buf pos =
     (if sz > 0
      then (let bytes_in = (if sz > max_io then max_io else sz)
            in case HDpread_retry content evs bytes_in offset of
                 (None, evs') \<Rightarrow> (FAIL, buf)
               | (Some data, evs') \<Rightarrow>
                   if length data = 0 then (SUCCEED, memset_zero buf pos sz)
                   else posix_read_loop content max_io evs' (sz - length data)
                          (offset + length data) (memcpy_at buf pos data) (pos + length data))
      else (SUCCEED, buf))"
  by pat_completeness auto
termination
  by (relation "measure (\<lambda>(content, max_io, evs, sz, offset, buf, pos). sz)") auto

declare posix_read_loop.simps [simp del]

definition H5FD__posix_common_read ::
  "byte list \<Rightarrow> nat \<Rightarrow> pread_event list \<Rightarrow> haddr_t \<Rightarrow> nat \<Rightarrow> byte list \<Rightarrow> herr_t \<times> byte list" where
  "H5FD__posix_common_read content max_io evs addr sz buf =
     (if addr = HADDR_UNDEF then (FAIL, buf)
      else if H5FD_POSIX_REGION_OVERFLOW addr sz then (FAIL, buf)
      else posix_read_loop content max_io evs sz addr buf 0)"

text \<open>
  A schedule without failures in which every short transfer is of at least one byte
  (a read of a regular file returns zero only at the end of the file).
\<close>

fun pread_events_ok :: "pread_event list \<Rightarrow> bool" where
  "pread_events_ok [] = True"
| "pread_events_ok (PREAD_EINTR # evs) = pread_events_ok evs"
| "pread_events_ok (PREAD_ERROR # evs) = False"
| "pread_events_ok (PREAD_SHORT k # evs) = (0 < k \<and> pread_events_ok evs)"

lemma HDpread_retry_ok:
  assumes "pread_events_ok evs" "0 < bytes_in"
  shows "\<exists>k evs'. HDpread_retry content evs bytes_in offset
            = (Some (take k (drop offset content)), evs')
          \<and> 0 < k \<and> k \<le> bytes_in \<and> pread_events_ok evs'"
  using assms
proof (induction content evs bytes_in offset rule: HDpread_retry.induct)
  case (1 content bytes_in offset)
  then show ?case by auto
next
  case (2 content evs bytes_in offset)
  then show ?case by simp
next
  case (3 content evs bytes_in offset)
  then show ?case by simp
next
  case (4 content k evs bytes_in offset)
  then have "0 < min k bytes_in" "min k bytes_in \<le> bytes_in" by simp_all
  with 4 show ?case by (intro exI [of _ "min k bytes_in"] exI [of _ evs]) simp
qed


text \<open>The \<open>sz\<close> bytes of the file from \<open>offset\<close> on, with zeros past the end of the file.\<close>

definition file_bytes :: "byte list \<Rightarrow> nat \<Rightarrow> nat \<Rightarrow> byte list" where
  "file_bytes content offset sz =
     take sz (drop offset content) @ replicate (sz - length (drop offset content)) 0"

lemma file_bytes_eof: "drop offset content = [] \<Longrightarrow> file_bytes content offset sz = replicate sz 0"
  by (simp add: file_bytes_def)

lemma file_bytes_split:
  assumes d: "d = length (take k (drop offset content))" and le: "d \<le> sz"
  shows "file_bytes content offset sz
       = take k (drop offset content) @ file_bytes content (offset + d) (sz - d)"
proof -
  let ?xs = "drop offset content"
  from d have dm: "d = min k (length ?xs)" by (simp add: min.commute)
  then have dl: "d \<le> length ?xs" by simp
  from dm have t: "take k ?xs = take d ?xs" by (simp add: min_def)
  have dr: "drop (offset + d) content = drop d ?xs" by (simp add: add.commute)
  from le have "take sz ?xs = take (d + (sz - d)) ?xs" by simp
  also have "\<dots> = take d ?xs @ take (sz - d) (drop d ?xs)" by (rule take_add)
  finally have a: "take sz ?xs = take d ?xs @ take (sz - d) (drop d ?xs)" .
  from dl have b: "sz - d - length (drop d ?xs) = sz - length ?xs" by simp
  show ?thesis unfolding file_bytes_def dr b t a by simp
qed

lemma memcpy_at_parts:
  assumes "pos + length data \<le> length buf" "length data \<le> sz"
  shows "take (pos + length data) (memcpy_at buf pos data) = take pos buf @ data"
    and "drop (pos + length data + (sz - length data)) (memcpy_at buf pos data)
       = drop (pos + sz) buf"
    and "length (memcpy_at buf pos data) = length buf"
proof -
  from assms have l: "length (take pos buf) = pos" by simp
  show "take (pos + length data) (memcpy_at buf pos data) = take pos buf @ data"
    using l by (simp add: memcpy_at_def)
  from assms(2) have e: "pos + length data + (sz - length data) = pos + sz" by simp
  have "drop (pos + sz) (take pos buf @ data @ drop (pos + length data) buf)
      = drop (sz - length data) (drop (pos + length data) buf)"
    using l assms(2) by simp
  also have "\<dots> = drop (pos + sz) buf" using assms(2) by (simp add: add.commute)
  finally show "drop (pos + length data + (sz - length data)) (memcpy_at buf pos data)
       = drop (pos + sz) buf" unfolding e memcpy_at_def .
  show "length (memcpy_at buf pos data) = length buf"
    using assms(1) by (simp add: memcpy_at_def)
qed

lemma posix_read_loop_ok:
  assumes "pread_events_ok evs" "0 < max_io" "pos + sz \<le> length buf"
  shows "posix_read_loop content max_io evs sz offset buf pos
       = (SUCCEED, take pos buf @ file_bytes content offset sz @ drop (pos + sz) buf)"
  using assms
proof (induction content max_io evs sz offset buf pos rule: posix_read_loop.induct)
  case (1 content max_io evs sz offset buf pos)
  show ?case
  proof (cases "sz > 0")
    case False
    then show ?thesis
      by (subst posix_read_loop.simps) (simp add: file_bytes_def)
  next
    case True
    let ?bytes_in = "if sz > max_io then max_io else sz"
    from True "1.prems"(2) have b: "0 < ?bytes_in" "?bytes_in \<le> sz" by simp_all
    from HDpread_retry_ok [OF "1.prems"(1) b(1), of content offset] obtain k evs'
      where r: "HDpread_retry content evs ?bytes_in offset
                  = (Some (take k (drop offset content)), evs')"
        and k: "0 < k" "k \<le> ?bytes_in" and ok': "pread_events_ok evs'" by blast
    define data where "data = take k (drop offset content)"
    from r have r': "HDpread_retry content evs ?bytes_in offset = (Some data, evs')"
      unfolding data_def .
    from k b have dl: "length data \<le> sz" unfolding data_def by simp
    show ?thesis
    proof (cases "length data = 0")
      case z: True
      with k have "drop offset content = []" unfolding data_def by simp
      then have f: "file_bytes content offset sz = replicate sz 0" by (rule file_bytes_eof)
      from True r' z have "posix_read_loop content max_io evs sz offset buf pos
          = (SUCCEED, memset_zero buf pos sz)"
        by (subst posix_read_loop.simps) (simp add: Let_def)
      then show ?thesis unfolding f by (simp add: memset_zero_def)
    next
      case nz: False
      from "1.prems"(3) dl have fit: "pos + length data \<le> length buf" by linarith
      note m = memcpy_at_parts [OF fit dl]
      from "1.prems"(3) dl m(3)
      have p: "pos + length data + (sz - length data) \<le> length (memcpy_at buf pos data)"
        by simp
      from "1.IH" [OF True refl r' [symmetric] refl nz ok' "1.prems"(2) p]
      have ih: "posix_read_loop content max_io evs' (sz - length data) (offset + length data)
                  (memcpy_at buf pos data) (pos + length data)
          = (SUCCEED, (take pos buf @ data)
               @ file_bytes content (offset + length data) (sz - length data)
               @ drop (pos + sz) buf)"
        unfolding m(1,2) .
      from True r' nz have "posix_read_loop content max_io evs sz offset buf pos
          = posix_read_loop content max_io evs' (sz - length data) (offset + length data)
                  (memcpy_at buf pos data) (pos + length data)"
        by (subst posix_read_loop.simps) (simp add: Let_def)
      moreover have "file_bytes content offset sz
          = data @ file_bytes content (offset + length data) (sz - length data)"
        using dl unfolding data_def by (intro file_bytes_split) simp_all
      ultimately show ?thesis using ih by simp
    qed
  qed
qed


text \<open>
  When the system call returns zero bytes, the loop fills what is left of the request
  with zeros and the read succeeds, whatever is left of the schedule.
\<close>

lemma posix_read_loop_zero_fill:
  assumes "0 < sz"
    and "HDpread_retry content evs (if sz > max_io then max_io else sz) offset = (Some [], evs')"
  shows "posix_read_loop content max_io evs sz offset buf pos = (SUCCEED, memset_zero buf pos sz)"
  using assms by (subst posix_read_loop.simps) (simp add: Let_def)

text \<open>
  Claim C9. For a read with a defined address and a region that does not overflow,
  into a buffer of the requested size, with H5_POSIX_MAX_IO_BYTES positive, under a
  schedule of the system call without failures: whatever the interruptions and the
  short transfers of the schedule, the read succeeds and the buffer holds the bytes of
  the file from the address on, with zeros in the part of the request that lies past
  the end of the file; this is the result of the read under the schedule without
  events.
\<close>

theorem posix_common_read_retries:
  assumes "addr \<noteq> HADDR_UNDEF" and "\<not> H5FD_POSIX_REGION_OVERFLOW addr sz"
    and "pread_events_ok evs" and "0 < max_io" and "length buf = sz"
  shows "H5FD__posix_common_read content max_io evs addr sz buf
           = (SUCCEED, file_bytes content addr sz)
       \<and> H5FD__posix_common_read content max_io evs addr sz buf
           = H5FD__posix_common_read content max_io [] addr sz buf"
proof -
  from assms(5) have f: "0 + sz \<le> length buf" by simp
  have e: "pread_events_ok []" by simp
  from posix_read_loop_ok [OF assms(3,4) f, of content addr] assms(5)
  have a: "posix_read_loop content max_io evs sz addr buf 0
             = (SUCCEED, file_bytes content addr sz)" by simp
  from posix_read_loop_ok [OF e assms(4) f, of content addr] assms(5)
  have b: "posix_read_loop content max_io [] sz addr buf 0
             = (SUCCEED, file_bytes content addr sz)" by simp
  from assms(1,2) a b show ?thesis by (simp add: H5FD__posix_common_read_def)
qed

theorem posix_common_read_retries_witness:
  "pread_events_ok [PREAD_EINTR, PREAD_SHORT 1, PREAD_EINTR, PREAD_EINTR, PREAD_SHORT 3]
   \<and> H5FD__posix_common_read [1, 2, 3, 4, 5] 2
        [PREAD_EINTR, PREAD_SHORT 1, PREAD_EINTR, PREAD_EINTR, PREAD_SHORT 3] 2 6
        [9, 9, 9, 9, 9, 9]
      = (SUCCEED, [3, 4, 5, 0, 0, 0])"
proof -
  have a: "(2::nat) \<noteq> HADDR_UNDEF" by (simp add: HADDR_UNDEF_def)
  have o: "\<not> H5FD_POSIX_REGION_OVERFLOW 2 6" by (simp add: region_overflow_iff)
  have e: "pread_events_ok [PREAD_EINTR, PREAD_SHORT 1, PREAD_EINTR, PREAD_EINTR, PREAD_SHORT 3]"
    by simp
  have m: "(0::nat) < 2" by simp
  have l: "length [9 :: byte, 9, 9, 9, 9, 9] = 6" by simp
  have f: "file_bytes [1, 2, 3, 4, 5] 2 6 = [3, 4, 5, 0, 0, 0]"
    by (simp add: file_bytes_def replicate_numeral)
  from posix_common_read_retries [OF a o e m l, of "[1, 2, 3, 4, 5]"] e f
  show ?thesis by simp
qed

end
